theory Spec2Isabelle
  imports Main "HOL-Library.Word" "HOL-Library.AList"
begin

unbundle bit_operations_syntax

section \<open>Data model of a quasar node\<close>

text \<open>
  Byte strings are lists of 8-bit words. A \<open>pubkey\<close> and a \<open>hash160digest\<close> are
  fixed-width byte arrays in the Go code; only equality and their bytes are used.
  An \<open>io.Writer\<close> is known by its identity; the nil interface value is \<open>None\<close>.
\<close>

type_synonym byte = "8 word"
type_synonym bytes = "byte list"
type_synonym pubkey = bytes
type_synonym hash160digest = bytes
type_synonym writer = nat
type_synonym sink = "writer option"

text \<open>
  A Go panic (index out of range, nil dereference) ends the operation; the model
  returns it as the left summand.
\<close>

datatype panic = IndexOutOfRange | NilDereference

text \<open>
  Modelled from the spec: the declaration of \<open>Config\<close> is not among the source files;
  the fields are the options of section 6 that the node reads. \<open>FiltersDepth\<close> is
  compared with \<open>uint32\<close> values and \<open>FiltersM\<close> with \<open>uint64\<close> values in the source,
  which fixes their widths. The ttl of an event is "an unsigned integer" (it is
  decremented and compared with 0); it is taken as \<open>uint32\<close>, the width of the other
  counter of the wire records.
\<close>

record Config =
  DefaultEventTTL :: "32 word"
  FilterFreshness :: "64 word"
  PropagationDelay :: "64 word"
  FiltersDepth :: "32 word"
  FiltersM :: "64 word"

text \<open>\<open>peerUpdate\<close>, with the fields of \<open>update\<close> in update.go: the sender is a pointer
  and may be nil.\<close>

record peerUpdate =
  peer :: "pubkey option"
  index :: "32 word"
  filter_u :: bytes

text \<open>Modelled from the spec: the declaration of \<open>peerData\<close> is not among the source
  files. Section 3: "an ordered sequence of D fixed-width bit arrays", each with "an
  associated timestamp (milliseconds since epoch)"; the field names are those
  \<open>processUpdate\<close> uses.\<close>

record peerData =
  filters :: "bytes list"
  timestamps :: "64 word list"

text \<open>Modelled from the spec: the declaration of \<open>event\<close> is not among the source
  files. Section 3: "{ topic-digest: 20 bytes, payload: variable bytes, ttl: unsigned
  integer, publishers: ordered sequence of peer-id }"; the field names are those \<open>route\<close>
  uses, where the topic digest is a pointer to a 20-byte array and may be nil.\<close>

record event =
  topicDigest :: "hash160digest option"
  message :: bytes
  publishers :: "pubkey list"
  ttl :: "32 word"

text \<open>
  Modelled from the spec: the declaration of the interface \<open>networkOverlay\<close> is not
  among the source files. Section 6: the core requires operations "to retrieve the local
  peer-id, list currently connected peer-ids, test whether a given peer-id is currently
  connected". The three readings are independent fields: nothing is assumed about how
  the overlay relates them. Sends go to the action list, and the receive channels are
  the inputs of the dispatcher.
\<close>

record networkOverlay =
  id_net :: pubkey
  connectedPeers :: "pubkey list"
  isConnected :: "pubkey option \<Rightarrow> bool"

text \<open>
  The logger is a struct of twelve channels, each of which may be nil; a field is
  \<open>True\<close> when the channel is installed.
\<close>

record Logger =
  UpdatesSent :: bool
  UpdatesReceived :: bool
  UpdatesSuccess :: bool
  UpdatesFail :: bool
  EventsPublished :: bool
  EventsReceived :: bool
  EventsDeliver :: bool
  EventsDropDuplicate :: bool
  EventsDropTTL :: bool
  EventsRouteDirect :: bool
  EventsRouteWell :: bool
  EventsRouteRandom :: bool

datatype tap =
  TapUpdatesSent | TapUpdatesReceived | TapUpdatesSuccess | TapUpdatesFail
  | TapEventsPublished | TapEventsReceived | TapEventsDeliver | TapEventsDropDuplicate
  | TapEventsDropTTL | TapEventsRouteDirect | TapEventsRouteWell | TapEventsRouteRandom

text \<open>
  What a node does to the outside, in program order: a write to a sink, a send through
  the overlay, a record offered on a tap. \<open>LogUpdate\<close> and \<open>LogEvent\<close> carry the entry
  and the target; their back pointer to the node is left out. Most of these are started
  with \<open>go\<close>: the list gives the order in which they are started, and every started
  send is taken to complete. Each operation below runs under the node's lock, so it is a
  function from the node before to the node after.
\<close>

datatype action =
  Write writer bytes
  | SendUpdate pubkey "32 word" bytes
  | SendEvent pubkey "event"
  | LogUpdate tap peerUpdate "pubkey option"
  | LogEvent tap "event" "pubkey option"

text \<open>
  The node. Go maps are association lists here; \<open>range\<close> over a map visits the list
  in its order, which stands for the order Go happens to choose. The duplicate history
  is an external structure of type \<open>'h\<close>.
\<close>

record 'h Node =
  net :: networkOverlay
  subscribers :: "(hash160digest \<times> sink list) list"
  topics :: "(hash160digest \<times> bytes) list"
  peers :: "(pubkey \<times> peerData) list"
  log :: "Logger option"
  history :: 'h
  cfg :: "Config"

subsection \<open>Logger methods\<close>

text \<open>
  Every method has the shape \<open>if l != nil && l.Channel != nil { l.Channel <- record }\<close>.
\<close>

definition offerUpdate ::
  "Logger option \<Rightarrow> (Logger \<Rightarrow> bool) \<Rightarrow> tap \<Rightarrow> peerUpdate \<Rightarrow> pubkey option \<Rightarrow> action list" where
  "offerUpdate l ch t u target =
     (case l of None \<Rightarrow> [] | Some lg \<Rightarrow> if ch lg then [LogUpdate t u target] else [])"

definition offerEvent ::
  "Logger option \<Rightarrow> (Logger \<Rightarrow> bool) \<Rightarrow> tap \<Rightarrow> event \<Rightarrow> pubkey option \<Rightarrow> action list" where
  "offerEvent l ch t e target =
     (case l of None \<Rightarrow> [] | Some lg \<Rightarrow> if ch lg then [LogEvent t e target] else [])"

definition updateSent ::
  "Logger option \<Rightarrow> 'h Node \<Rightarrow> 32 word \<Rightarrow> bytes \<Rightarrow> pubkey \<Rightarrow> action list" where
  "updateSent l n i f t =
     offerUpdate l UpdatesSent TapUpdatesSent
       \<lparr>peer = Some (id_net (net n)), index = i, filter_u = f\<rparr> (Some t)"

definition updateReceived :: "Logger option \<Rightarrow> peerUpdate \<Rightarrow> action list" where
  "updateReceived l u = offerUpdate l UpdatesReceived TapUpdatesReceived u None"

definition updateSuccess :: "Logger option \<Rightarrow> peerUpdate \<Rightarrow> action list" where
  "updateSuccess l u = offerUpdate l UpdatesSuccess TapUpdatesSuccess u None"

definition updateFail :: "Logger option \<Rightarrow> peerUpdate \<Rightarrow> action list" where
  "updateFail l u = offerUpdate l UpdatesFail TapUpdatesFail u None"

definition eventPublished :: "Logger option \<Rightarrow> event \<Rightarrow> action list" where
  "eventPublished l e = offerEvent l EventsPublished TapEventsPublished e None"

definition eventDeliver :: "Logger option \<Rightarrow> event \<Rightarrow> action list" where
  "eventDeliver l e = offerEvent l EventsDeliver TapEventsDeliver e None"

definition eventDropDuplicate :: "Logger option \<Rightarrow> event \<Rightarrow> action list" where
  "eventDropDuplicate l e = offerEvent l EventsDropDuplicate TapEventsDropDuplicate e None"

definition eventDropTTL :: "Logger option \<Rightarrow> event \<Rightarrow> action list" where
  "eventDropTTL l e = offerEvent l EventsDropTTL TapEventsDropTTL e None"

definition eventRouteDirect :: "Logger option \<Rightarrow> event \<Rightarrow> pubkey \<Rightarrow> action list" where
  "eventRouteDirect l e t = offerEvent l EventsRouteDirect TapEventsRouteDirect e (Some t)"

definition eventRouteWell :: "Logger option \<Rightarrow> event \<Rightarrow> pubkey \<Rightarrow> action list" where
  "eventRouteWell l e t = offerEvent l EventsRouteWell TapEventsRouteWell e (Some t)"

definition eventRouteRandom :: "Logger option \<Rightarrow> event \<Rightarrow> pubkey \<Rightarrow> action list" where
  "eventRouteRandom l e t = offerEvent l EventsRouteRandom TapEventsRouteRandom e (Some t)"

section \<open>Update validation and ingestion\<close>

text \<open>
  \<open>validUpdate\<close> of update.go. There the types are called \<open>update\<close> and \<open>config\<close> and
  the fields \<open>filtersDepth\<close> and \<open>filtersM\<close>; the dispatcher calls it with a
  \<open>peerUpdate\<close> and the node's \<open>Config\<close>, so they are the same types here.
  The update pointer itself may be nil. The index test is
  unsigned 32-bit arithmetic, so \<open>FiltersDepth - 1\<close> wraps when the depth is 0; the
  length test converts \<open>len\<close> to \<open>uint64\<close> and divides \<open>FiltersM\<close> by 8 as \<open>uint64\<close>.
\<close>

definition validUpdate :: "peerUpdate option \<Rightarrow> Config \<Rightarrow> bool" where
  "validUpdate u c =
     (case u of None \<Rightarrow> False
      | Some v \<Rightarrow> peer v \<noteq> None \<and> index v < FiltersDepth c - 1 \<and>
          (word_of_nat (length (filter_u v)) :: 64 word) = FiltersM c div 8)"

text \<open>The number of bytes of a filter, \<open>int(FiltersM / 8)\<close>.\<close>

definition filterSize :: "Config \<Rightarrow> nat" where
  "filterSize c = unat (FiltersM c div 8)"

text \<open>
  Modelled from the spec: \<open>newFilters\<close> is not among the source files; section 4.6 builds
  "a local attenuated vector of D filters of M bits each, zero-initialized".
\<close>

definition newFilters :: "Config \<Rightarrow> bytes list" where
  "newFilters c = replicate (unat (FiltersDepth c)) (replicate (filterSize c) 0)"

text \<open>
  \<open>processUpdate\<close>. The wall-clock reading of \<open>makePeerTimestamp()\<close> is the argument
  \<open>now\<close>. Writing \<open>data.filters[u.index]\<close> or \<open>data.timestamps[u.index]\<close> out of range
  panics, as does dereferencing a nil sender the overlay calls connected.
\<close>

definition processUpdate ::
  "64 word \<Rightarrow> 'h Node \<Rightarrow> peerUpdate \<Rightarrow> panic + ('h Node \<times> action list)" where
  "processUpdate now n u =
     (if isConnected (net n) (peer u) = False
      then Inr (n, updateReceived (log n) u @ updateFail (log n) u)
      else
        (case peer u of
           None \<Rightarrow> Inl NilDereference
         | Some p \<Rightarrow>
             (let data =
                    (case map_of (peers n) p of
                       Some d \<Rightarrow> d
                     | None \<Rightarrow>
                         \<lparr>filters = newFilters (cfg n),
                          timestamps = replicate (unat (FiltersDepth (cfg n))) 0\<rparr>);
                  i = unat (index u)
              in if i < length (filters data) \<and> i < length (timestamps data)
                 then Inr (n\<lparr>peers := AList.update p
                                 (data\<lparr>filters := (filters data)[i := filter_u u],
                                       timestamps := (timestamps data)[i := now]\<rparr>)
                                 (peers n)\<rparr>,
                           updateReceived (log n) u @ updateSuccess (log n) u)
                 else Inl IndexOutOfRange)))"

text \<open>
  The update case of the dispatcher's \<open>select\<close>: an inbound update is handed to
  \<open>processUpdate\<close> only when \<open>validUpdate\<close> holds; otherwise nothing happens.
\<close>

definition dispatchUpdate ::
  "64 word \<Rightarrow> 'h Node \<Rightarrow> peerUpdate option \<Rightarrow> panic + ('h Node \<times> action list)" where
  "dispatchUpdate now n u =
     (if validUpdate u (cfg n)
      then (case u of None \<Rightarrow> Inr (n, []) | Some v \<Rightarrow> processUpdate now n v)
      else Inr (n, []))"

section \<open>Bloom filter primitives\<close>

text \<open>
  The filter primitives are called by the node but are not among the source files, nor is
  \<open>hash160\<close>. They are modelled from section 4.1 of the specification: "Insertion of a
  digest hashes the input into K distinct bit positions in [0, M); containment tests
  that all K are set. The K positions MUST be derived deterministically from the
  digest". The derivation of the positions is the parameter \<open>pos\<close> of everything below,
  and \<open>hash160\<close> is the parameter \<open>h\<close>.
\<close>

text \<open>Modelled from the spec: setting bit \<open>p\<close> of a filter, which is the bit \<open>p mod 8\<close>
  of byte \<open>p div 8\<close>; the helper is missing from the sources.\<close>

definition setBit :: "bytes \<Rightarrow> nat \<Rightarrow> bytes" where
  "setBit f p =
     (if p div 8 < length f then f[p div 8 := (f ! (p div 8)) OR push_bit (p mod 8) 1] else f)"

text \<open>Modelled from the spec: testing bit \<open>p\<close> of a filter; the helper is missing from
  the sources.\<close>

definition testBit :: "bytes \<Rightarrow> nat \<Rightarrow> bool" where
  "testBit f p = (p div 8 < length f \<and> bit (f ! (p div 8)) (p mod 8))"

text \<open>Modelled from the spec: \<open>filterInsertDigest\<close> is missing from the sources;
  insertion sets the bits at the positions of the digest.\<close>

definition filterInsertDigest ::
  "(Config \<Rightarrow> hash160digest \<Rightarrow> nat list) \<Rightarrow> bytes \<Rightarrow> Config \<Rightarrow> hash160digest \<Rightarrow> bytes" where
  "filterInsertDigest pos f c d = fold (\<lambda>p g. setBit g p) (pos c d) f"

text \<open>Modelled from the spec: \<open>filterContainsDigest\<close> is missing from the sources;
  "containment tests that all K are set".\<close>

definition filterContainsDigest ::
  "(Config \<Rightarrow> hash160digest \<Rightarrow> nat list) \<Rightarrow> bytes \<Rightarrow> Config \<Rightarrow> hash160digest \<Rightarrow> bool" where
  "filterContainsDigest pos f c d = list_all (testBit f) (pos c d)"

text \<open>Modelled from the spec: \<open>filterContains\<close> is missing from the sources. \<open>route\<close>
  calls it on the bytes of a peer-id, and section 4.6 inserts a peer-id "hashed as a
  20-byte digest": it tests the digest of its argument.\<close>

definition filterContains ::
  "(bytes \<Rightarrow> hash160digest) \<Rightarrow> (Config \<Rightarrow> hash160digest \<Rightarrow> nat list) \<Rightarrow>
   bytes \<Rightarrow> Config \<Rightarrow> bytes \<Rightarrow> bool" where
  "filterContains h pos f c data = filterContainsDigest pos f c (h data)"

text \<open>Modelled from the spec: \<open>newFilterFromDigests\<close> is missing from the sources; section
  4.6 fills level 0 "from the union of" the digests, starting from a zero filter.\<close>

definition newFilterFromDigests ::
  "(Config \<Rightarrow> hash160digest \<Rightarrow> nat list) \<Rightarrow> Config \<Rightarrow> hash160digest list \<Rightarrow> bytes" where
  "newFilterFromDigests pos c ds =
     fold (\<lambda>d f. filterInsertDigest pos f c d) ds (replicate (filterSize c) 0)"

section \<open>Filter propagation\<close>

text \<open>\<open>subscriptions\<close>: the keys of the subscription table, in iteration order.\<close>

definition subscriptions :: "'h Node \<Rightarrow> hash160digest list" where
  "subscriptions n = map fst (subscribers n)"

text \<open>
  The inline merge of \<open>sendUpdates\<close>: \<open>filters[i][j] = filters[i][j] | data.filters[i-1][j]\<close>
  for \<open>j\<close> below the filter size, for \<open>i\<close> from 1 below the depth, for every peer
  entry. Each index is checked as Go checks it.
\<close>

fun mergeBytes :: "bytes \<Rightarrow> bytes \<Rightarrow> nat list \<Rightarrow> panic + bytes" where
  "mergeBytes dst src [] = Inr dst"
| "mergeBytes dst src (j # js) =
     (if j < length dst \<and> j < length src
      then mergeBytes (dst[j := (dst ! j) OR (src ! j)]) src js
      else Inl IndexOutOfRange)"

fun mergeLevels :: "nat \<Rightarrow> bytes list \<Rightarrow> peerData \<Rightarrow> nat list \<Rightarrow> panic + bytes list" where
  "mergeLevels sz fs data [] = Inr fs"
| "mergeLevels sz fs data (i # is) =
     (if sz = 0 then mergeLevels sz fs data is
      else if i < length fs \<and> i - 1 < length (filters data)
      then (case mergeBytes (fs ! i) (filters data ! (i - 1)) [0..<sz] of
              Inl x \<Rightarrow> Inl x
            | Inr b \<Rightarrow> mergeLevels sz (fs[i := b]) data is)
      else Inl IndexOutOfRange)"

fun mergePeers :: "Config \<Rightarrow> bytes list \<Rightarrow> peerData list \<Rightarrow> panic + bytes list" where
  "mergePeers c fs [] = Inr fs"
| "mergePeers c fs (data # ds) =
     (case mergeLevels (filterSize c) fs data [1..<unat (FiltersDepth c)] of
        Inl x \<Rightarrow> Inl x
      | Inr fs' \<Rightarrow> mergePeers c fs' ds)"

text \<open>
  The first half of \<open>sendUpdates\<close> (up to the end of the loop over \<open>n.peers\<close>): the local
  attenuated vector. Assigning \<open>filters[0]\<close> panics when the depth is 0.
\<close>

definition localFilters ::
  "(bytes \<Rightarrow> hash160digest) \<Rightarrow> (Config \<Rightarrow> hash160digest \<Rightarrow> nat list) \<Rightarrow> 'h Node \<Rightarrow>
   panic + bytes list" where
  "localFilters h pos n =
     (let fs = newFilters (cfg n);
          pubkey = id_net (net n);
          digests = subscriptions n @ [h pubkey]
      in if 0 < length fs
         then mergePeers (cfg n) (fs[0 := newFilterFromDigests pos (cfg n) digests])
                (map snd (peers n))
         else Inl IndexOutOfRange)"

text \<open>
  The second half: for every connected peer, for \<open>i\<close> from 0 while
  \<open>uint32(i) < FiltersDepth - 1\<close>, one send and one \<open>updateSent\<close> record.
\<close>

fun sendLevels :: "'h Node \<Rightarrow> bytes list \<Rightarrow> pubkey \<Rightarrow> nat list \<Rightarrow> panic + action list" where
  "sendLevels n fs t [] = Inr []"
| "sendLevels n fs t (i # is) =
     (if i < length fs
      then (case sendLevels n fs t is of
              Inl x \<Rightarrow> Inl x
            | Inr as \<Rightarrow>
                Inr (SendUpdate t (word_of_nat i) (fs ! i) #
                     updateSent (log n) n (word_of_nat i) (fs ! i) t @ as))
      else Inl IndexOutOfRange)"

fun sendPeers :: "'h Node \<Rightarrow> bytes list \<Rightarrow> pubkey list \<Rightarrow> panic + action list" where
  "sendPeers n fs [] = Inr []"
| "sendPeers n fs (t # ts) =
     (case sendLevels n fs t [0..<unat (FiltersDepth (cfg n) - 1)] of
        Inl x \<Rightarrow> Inl x
      | Inr a \<Rightarrow> (case sendPeers n fs ts of Inl x \<Rightarrow> Inl x | Inr b \<Rightarrow> Inr (a @ b)))"

definition sendUpdates ::
  "(bytes \<Rightarrow> hash160digest) \<Rightarrow> (Config \<Rightarrow> hash160digest \<Rightarrow> nat list) \<Rightarrow> 'h Node \<Rightarrow>
   panic + action list" where
  "sendUpdates h pos n =
     (case localFilters h pos n of
        Inl x \<Rightarrow> Inl x
      | Inr fs \<Rightarrow> sendPeers n fs (connectedPeers (net n)))"

section \<open>Event routing\<close>

text \<open>
  \<open>isDuplicate\<close>: the history's \<open>Witness\<close> on the digest followed by the message. The
  history is an external library; its \<open>Witness\<close> is the parameter \<open>W\<close>, which returns
  the answer and the history after the call. Slicing a nil digest pointer panics.
\<close>

definition isDuplicate ::
  "('h \<Rightarrow> bytes \<Rightarrow> bool \<times> 'h) \<Rightarrow> 'h Node \<Rightarrow> event \<Rightarrow> panic + (bool \<times> 'h)" where
  "isDuplicate W n e =
     (case topicDigest e of
        None \<Rightarrow> Inl NilDereference
      | Some td \<Rightarrow> Inr (W (history n) (td @ message e)))"

text \<open>\<open>deliver\<close>: one write per receiver, results ignored; a nil receiver panics.\<close>

fun deliver :: "sink list \<Rightarrow> event \<Rightarrow> panic + action list" where
  "deliver [] e = Inr []"
| "deliver (None # rs) e = Inl NilDereference"
| "deliver (Some w # rs) e =
     (case deliver rs e of Inl x \<Rightarrow> Inl x | Inr as \<Rightarrow> Inr (Write w (message e) # as))"

text \<open>
  The negative-route test of \<open>route\<close>: the loop over \<open>e.publishers\<close> sets a flag and
  does not stop early.
\<close>

definition negRt ::
  "(bytes \<Rightarrow> hash160digest) \<Rightarrow> (Config \<Rightarrow> hash160digest \<Rightarrow> nat list) \<Rightarrow>
   bytes \<Rightarrow> Config \<Rightarrow> pubkey list \<Rightarrow> bool" where
  "negRt h pos f c ps =
     fold (\<lambda>publisher r. if filterContains h pos f c publisher then True else r) ps False"

text \<open>
  The inner loop of the well-informed step at level \<open>i\<close>, over the peer table; and the
  outer loop over the levels. \<open>data.filters[i]\<close> out of range panics.
\<close>

fun scanPeers ::
  "(bytes \<Rightarrow> hash160digest) \<Rightarrow> (Config \<Rightarrow> hash160digest \<Rightarrow> nat list) \<Rightarrow> Config \<Rightarrow>
   hash160digest \<Rightarrow> pubkey list \<Rightarrow> nat \<Rightarrow> (pubkey \<times> peerData) list \<Rightarrow> panic + pubkey option" where
  "scanPeers h pos c td ps i [] = Inr None"
| "scanPeers h pos c td ps i ((peerId, data) # rest) =
     (if i < length (filters data)
      then (let f = filters data ! i
            in if filterContainsDigest pos f c td \<and> \<not> negRt h pos f c ps
               then Inr (Some peerId)
               else scanPeers h pos c td ps i rest)
      else Inl IndexOutOfRange)"

fun scanLevels ::
  "(bytes \<Rightarrow> hash160digest) \<Rightarrow> (Config \<Rightarrow> hash160digest \<Rightarrow> nat list) \<Rightarrow> Config \<Rightarrow>
   hash160digest \<Rightarrow> pubkey list \<Rightarrow> (pubkey \<times> peerData) list \<Rightarrow> nat list \<Rightarrow>
   panic + pubkey option" where
  "scanLevels h pos c td ps tab [] = Inr None"
| "scanLevels h pos c td ps tab (i # is) =
     (case scanPeers h pos c td ps i tab of
        Inl x \<Rightarrow> Inl x
      | Inr (Some peerId) \<Rightarrow> Inr (Some peerId)
      | Inr None \<Rightarrow> scanLevels h pos c td ps tab is)"

text \<open>
  \<open>randomPeer\<close>. \<open>rand.Intn\<close> is the parameter \<open>intn\<close>; its contract is
  \<open>intn k < k\<close> for \<open>0 < k\<close>, and an index outside the slice would panic.
\<close>

definition randomPeer :: "(nat \<Rightarrow> nat) \<Rightarrow> 'h Node \<Rightarrow> panic + pubkey option" where
  "randomPeer intn n =
     (let ps = connectedPeers (net n)
      in if length ps = 0 then Inr None
         else if intn (length ps) < length ps then Inr (Some (ps ! intn (length ps)))
         else Inl IndexOutOfRange)"

text \<open>
  Steps 4 and 5 of \<open>route\<close> (from the loop over the levels to the end), for the event
  after the ttl decrement.
\<close>

definition forward ::
  "(bytes \<Rightarrow> hash160digest) \<Rightarrow> (Config \<Rightarrow> hash160digest \<Rightarrow> nat list) \<Rightarrow> (nat \<Rightarrow> nat) \<Rightarrow>
   'h Node \<Rightarrow> hash160digest \<Rightarrow> event \<Rightarrow> panic + action list" where
  "forward h pos intn n td e =
     (case scanLevels h pos (cfg n) td (publishers e) (peers n)
             [0..<unat (FiltersDepth (cfg n))] of
        Inl x \<Rightarrow> Inl x
      | Inr (Some peerId) \<Rightarrow> Inr (SendEvent peerId e # eventRouteWell (log n) e peerId)
      | Inr None \<Rightarrow>
          (case randomPeer intn n of
             Inl x \<Rightarrow> Inl x
           | Inr None \<Rightarrow> Inr []
           | Inr (Some peerId) \<Rightarrow>
               Inr (SendEvent peerId e # eventRouteRandom (log n) e peerId)))"

text \<open>
  \<open>route\<close>, Algorithm 2. The result is the node (its history has witnessed the event),
  the event as \<open>route\<close> leaves it, and the actions in program order.
\<close>

definition route ::
  "(bytes \<Rightarrow> hash160digest) \<Rightarrow> (Config \<Rightarrow> hash160digest \<Rightarrow> nat list) \<Rightarrow>
   ('h \<Rightarrow> bytes \<Rightarrow> bool \<times> 'h) \<Rightarrow> (nat \<Rightarrow> nat) \<Rightarrow> 'h Node \<Rightarrow> event \<Rightarrow>
   panic + ('h Node \<times> event \<times> action list)" where
  "route h pos W intn n e =
     (let self = id_net (net n) in
      case (isDuplicate W n e, topicDigest e) of
        (Inl x, _) \<Rightarrow> Inl x
      | (Inr _, None) \<Rightarrow> Inl NilDereference
      | (Inr (dup, hist), Some td) \<Rightarrow>
          (let n' = n\<lparr>history := hist\<rparr> in
           if dup then Inr (n', e, eventDropDuplicate (log n) e)
           else
             (case map_of (subscribers n) td of
                Some receivers \<Rightarrow>
                  (case deliver receivers e of
                     Inl x \<Rightarrow> Inl x
                   | Inr ws \<Rightarrow>
                       (let e1 = e\<lparr>publishers := publishers e @ [self]\<rparr>
                        in Inr (n', e1,
                             eventDeliver (log n) e @ ws @
                             concat (map (\<lambda>peerId. SendEvent peerId e1 #
                                            eventRouteDirect (log n) e1 peerId)
                                       (connectedPeers (net n))))))
              | None \<Rightarrow>
                  (let e1 = e\<lparr>ttl := ttl e - 1\<rparr>
                   in if ttl e1 = 0 then Inr (n', e1, eventDropTTL (log n) e1)
                      else
                        (case forward h pos intn n td e1 of
                           Inl x \<Rightarrow> Inl x
                         | Inr as \<Rightarrow> Inr (n', e1, as))))))"

text \<open>
  Modelled from the spec: \<open>newEvent\<close> is not among the source files. Section 3: an event
  is "{ topic-digest, payload, ttl, publishers }" where the ttl "is initialized from
  configuration at publish time"; a fresh event has no publishers.
\<close>

definition newEvent :: "(bytes \<Rightarrow> hash160digest) \<Rightarrow> bytes \<Rightarrow> bytes \<Rightarrow> 32 word \<Rightarrow> event" where
  "newEvent h topic msg t =
     \<lparr>topicDigest = Some (h topic), message = msg, publishers = [], ttl = t\<rparr>"

text \<open>\<open>Publish\<close>: no validation; the new event is logged and routed.\<close>

definition Publish ::
  "(bytes \<Rightarrow> hash160digest) \<Rightarrow> (Config \<Rightarrow> hash160digest \<Rightarrow> nat list) \<Rightarrow>
   ('h \<Rightarrow> bytes \<Rightarrow> bool \<times> 'h) \<Rightarrow> (nat \<Rightarrow> nat) \<Rightarrow> 'h Node \<Rightarrow> bytes \<Rightarrow> bytes \<Rightarrow>
   panic + ('h Node \<times> event \<times> action list)" where
  "Publish h pos W intn n topic msg =
     (let ev = newEvent h topic msg (DefaultEventTTL (cfg n))
      in case route h pos W intn n ev of
           Inl x \<Rightarrow> Inl x
         | Inr (n', e', as) \<Rightarrow> Inr (n', e', eventPublished (log n) ev @ as))"

section \<open>Subscription table\<close>

definition newNode :: "networkOverlay \<Rightarrow> Logger option \<Rightarrow> Config \<Rightarrow> 'h \<Rightarrow> 'h Node" where
  "newNode ov l c d =
     \<lparr>net = ov, subscribers = [], topics = [], peers = [], log = l, history = d, cfg = c\<rparr>"

definition Subscribe :: "(bytes \<Rightarrow> hash160digest) \<Rightarrow> 'h Node \<Rightarrow> bytes \<Rightarrow> sink \<Rightarrow> 'h Node" where
  "Subscribe h n topic receiver =
     (let digest = h topic
      in case map_of (subscribers n) digest of
           None \<Rightarrow>
             n\<lparr>subscribers := AList.update digest [receiver] (subscribers n),
               topics := AList.update digest topic (topics n)\<rparr>
         | Some receivers \<Rightarrow>
             n\<lparr>subscribers := AList.update digest (receivers @ [receiver]) (subscribers n)\<rparr>)"

text \<open>
  \<open>Unsubscribe\<close>: a non-nil receiver is removed at its first occurrence, if it occurs;
  then the key is deleted from both tables when the receiver is nil or no receiver is
  left.
\<close>

definition Unsubscribe :: "(bytes \<Rightarrow> hash160digest) \<Rightarrow> 'h Node \<Rightarrow> bytes \<Rightarrow> sink \<Rightarrow> 'h Node" where
  "Unsubscribe h n topic receiver =
     (let digest = h topic
      in case map_of (subscribers n) digest of
           None \<Rightarrow> n
         | Some receivers \<Rightarrow>
             (let subs1 =
                    (if receiver \<noteq> None \<and> receiver \<in> set receivers
                     then AList.update digest (remove1 receiver receivers) (subscribers n)
                     else subscribers n);
                  left = (case map_of subs1 digest of Some rs \<Rightarrow> length rs | None \<Rightarrow> 0)
              in if receiver = None \<or> left = 0
                 then n\<lparr>subscribers := AList.delete digest subs1,
                        topics := AList.delete digest (topics n)\<rparr>
                 else n\<lparr>subscribers := subs1\<rparr>))"

text \<open>The key set of a table.\<close>

definition keys :: "('k \<times> 'v) list \<Rightarrow> 'k set" where
  "keys al = set (map fst al)"

text \<open>Any sequence of calls of the two operations on a node.\<close>

datatype apiCall = CallSubscribe bytes sink | CallUnsubscribe bytes sink

fun runCalls :: "(bytes \<Rightarrow> hash160digest) \<Rightarrow> 'h Node \<Rightarrow> apiCall list \<Rightarrow> 'h Node" where
  "runCalls h n [] = n"
| "runCalls h n (CallSubscribe t r # cs) = runCalls h (Subscribe h n t r) cs"
| "runCalls h n (CallUnsubscribe t r # cs) = runCalls h (Unsubscribe h n t r) cs"

section \<open>The well-informed step in the words of the specification\<close>

text \<open>
  Section 4.5, step 4, names the pair that is taken: the first (level, peer) pair, levels
  outermost, such that the peer's filter at that level contains the topic digest and
  contains none of the event's publishers. \<open>candidates\<close> lists the pairs in that order
  and \<open>qualifies\<close> is the condition; both are compared with the loops of \<open>route\<close> below.
\<close>

definition qualifies ::
  "(bytes \<Rightarrow> hash160digest) \<Rightarrow> (Config \<Rightarrow> hash160digest \<Rightarrow> nat list) \<Rightarrow> Config \<Rightarrow>
   hash160digest \<Rightarrow> pubkey list \<Rightarrow> nat \<times> pubkey \<times> peerData \<Rightarrow> bool" where
  "qualifies h pos c td ps x =
     (case x of (i, p, d) \<Rightarrow>
        filterContainsDigest pos (filters d ! i) c td \<and>
        \<not> list_ex (filterContains h pos (filters d ! i) c) ps)"

definition candidates ::
  "(pubkey \<times> peerData) list \<Rightarrow> nat list \<Rightarrow> (nat \<times> pubkey \<times> peerData) list" where
  "candidates tab levels = concat (map (\<lambda>i. map (\<lambda>(p, d). (i, p, d)) tab) levels)"

section \<open>Merged levels and the shape of the peer table\<close>

text \<open>
  Section 4.2 calls "merged-level(i)" the bitwise OR across all peer entries at a level;
  \<open>orAll\<close> is that OR over a list of filters of \<open>sz\<close> bytes, starting from the zero filter.
\<close>

definition orAll :: "nat \<Rightarrow> bytes list \<Rightarrow> bytes" where
  "orAll sz fs = fold (\<lambda>f acc. map2 (OR) acc f) fs (replicate sz 0)"

text \<open>
  Section 3 and section 8, invariant 1: every peer entry has \<open>D\<close> filters and \<open>D\<close>
  timestamps, and every filter has \<open>M/8\<close> bytes. The dispatcher keeps this shape
  (\<open>wfPeers_dispatchUpdate\<close> below).
\<close>

definition wfPeers :: "Config \<Rightarrow> (pubkey \<times> peerData) list \<Rightarrow> bool" where
  "wfPeers c tab =
     (\<forall>(p, d) \<in> set tab. length (filters d) = unat (FiltersDepth c) \<and>
        length (timestamps d) = unat (FiltersDepth c) \<and>
        (\<forall>f \<in> set (filters d). length f = filterSize c))"

section \<open>A small node for concrete runs\<close>

text \<open>
  Depth 3, 16-bit filters, ttl 5; a stand-in digest (the first 20 bytes, zero padded), one
  bit position per digest, a history that remembers everything, and \<open>Intn\<close> returning 0.
\<close>

definition cfg3 :: Config where
  "cfg3 = \<lparr>DefaultEventTTL = 5, FilterFreshness = 180000, PropagationDelay = 60000,
           FiltersDepth = 3, FiltersM = 16\<rparr>"

definition h20 :: "bytes \<Rightarrow> hash160digest" where
  "h20 x = take 20 (x @ replicate 20 0)"

definition pos1 :: "Config \<Rightarrow> hash160digest \<Rightarrow> nat list" where
  "pos1 c d = (case d of [] \<Rightarrow> [] | b # _ \<Rightarrow> [unat b mod 16])"

definition witnessAll :: "bytes list \<Rightarrow> bytes \<Rightarrow> bool \<times> bytes list" where
  "witnessAll hist x = (x \<in> set hist, x # hist)"

definition logAll :: Logger where
  "logAll = \<lparr>UpdatesSent = True, UpdatesReceived = True, UpdatesSuccess = True,
     UpdatesFail = True, EventsPublished = True, EventsReceived = True,
     EventsDeliver = True, EventsDropDuplicate = True, EventsDropTTL = True,
     EventsRouteDirect = True, EventsRouteWell = True, EventsRouteRandom = True\<rparr>"

definition net23 :: networkOverlay where
  "net23 = \<lparr>id_net = [9], connectedPeers = [[2], [3]],
            isConnected = (\<lambda>p. p = Some [2] \<or> p = Some [3])\<rparr>"

definition node0 :: "bytes list Node" where
  "node0 = newNode net23 (Some logAll) cfg3 []"

definition upd_ok :: peerUpdate where
  "upd_ok = \<lparr>peer = Some [2], index = 1, filter_u = [1, 0]\<rparr>"

definition upd_top :: peerUpdate where
  "upd_top = \<lparr>peer = Some [2], index = 2, filter_u = [1, 0]\<rparr>"

definition upd_short :: peerUpdate where
  "upd_short = \<lparr>peer = Some [2], index = 0, filter_u = [1]\<rparr>"

definition upd_stranger :: peerUpdate where
  "upd_stranger = \<lparr>peer = Some [7], index = 0, filter_u = [1, 0]\<rparr>"

text \<open>The node after \<open>upd_ok\<close> was processed at time 1000, and again at time 2000.\<close>

definition node_t1 :: "bytes list Node" where
  "node_t1 = node0\<lparr>peers := [([2], \<lparr>filters = [[0, 0], [1, 0], [0, 0]],
                                     timestamps = [0, 1000, 0]\<rparr>)]\<rparr>"

definition node_t2 :: "bytes list Node" where
  "node_t2 = node0\<lparr>peers := [([2], \<lparr>filters = [[0, 0], [1, 0], [0, 0]],
                                     timestamps = [0, 2000, 0]\<rparr>)]\<rparr>"

lemma depth_cfg3: "unat (FiltersDepth cfg3) = 3"
  by (simp add: cfg3_def)

lemma filterSize_cfg3: "filterSize cfg3 = 2"
  by (simp add: filterSize_def cfg3_def)

lemma replicate_3: "replicate 3 x = [x, x, x]"
  by (simp add: numeral_3_eq_3)

lemma replicate_2: "replicate 2 x = [x, x]"
  by (simp add: numeral_2_eq_2)

lemma newFilters_cfg3: "newFilters cfg3 = [[0, 0], [0, 0], [0, 0]]"
  by (simp add: newFilters_def filterSize_cfg3 depth_cfg3 replicate_3 replicate_2)

lemma timestamps_cfg3: "replicate (unat (FiltersDepth cfg3)) (0 :: 64 word) = [0, 0, 0]"
  by (simp add: depth_cfg3 replicate_3)

text \<open>A node subscribed to "news" with sink 1, an event on that topic, and an event
  on another topic with ttl 1.\<close>

definition node_sub :: "bytes list Node" where
  "node_sub = Subscribe h20 node0 [110, 101, 119, 115] (Some 1)"

definition ev_news :: event where
  "ev_news = newEvent h20 [110, 101, 119, 115] [104, 105] 5"

definition ev_last :: event where
  "ev_last = newEvent h20 [122] [104, 105] 1"

text \<open>The node after \<open>Subscribe\<close> was called on "news" with a nil receiver.\<close>

definition node_nil :: "bytes list Node" where
  "node_nil = Subscribe h20 node0 [110, 101, 119, 115] None"

text \<open>A node with two peer entries: only peer \<open>[3]\<close> advertises, at level 1, the bit
  of topic "r"; and an event on that topic.\<close>

definition node_peers :: "bytes list Node" where
  "node_peers = node0\<lparr>peers :=
     [([2], \<lparr>filters = [[0, 0], [0, 0], [0, 0]], timestamps = [0, 0, 0]\<rparr>),
      ([3], \<lparr>filters = [[0, 0], [4, 0], [0, 0]], timestamps = [0, 0, 0]\<rparr>)]\<rparr>"

definition ev_rare :: event where
  "ev_rare = newEvent h20 [114] [104, 105] 3"

text \<open>A configuration with default ttl 0, on a node with two neighbours and on a node
  with none.\<close>

definition cfg_ttl0 :: Config where
  "cfg_ttl0 = cfg3\<lparr>DefaultEventTTL := 0\<rparr>"

definition net_alone :: networkOverlay where
  "net_alone = \<lparr>id_net = [9], connectedPeers = [], isConnected = (\<lambda>p. False)\<rparr>"

definition node_alone :: "bytes list Node" where
  "node_alone = newNode net_alone (Some logAll) cfg_ttl0 []"

definition node_ttl0 :: "bytes list Node" where
  "node_ttl0 = newNode net23 (Some logAll) cfg_ttl0 []"

text \<open>The subscribed node with two peer entries whose level-0 and level-1 filters
  have bits set.\<close>

definition node_full :: "bytes list Node" where
  "node_full = node_sub\<lparr>peers :=
     [([2], \<lparr>filters = [[1, 0], [0, 0], [0, 0]], timestamps = [0, 0, 0]\<rparr>),
      ([3], \<lparr>filters = [[2, 0], [4, 0], [0, 0]], timestamps = [0, 0, 0]\<rparr>)]\<rparr>"

section \<open>Word arithmetic used below\<close>

lemma len_word64: "k < 2 ^ 63 \<Longrightarrow> ((word_of_nat k :: 64 word) = w) = (k = unat w)"
proof -
  assume "k < 2 ^ 63"
  then have "k < 2 ^ LENGTH(64)" by simp
  then have "unat (word_of_nat k :: 64 word) = k"
    by (simp add: unat_of_nat take_bit_nat_eq_self)
  then show ?thesis by auto
qed

lemma word_less_pred: "(d :: 32 word) \<noteq> 0 \<Longrightarrow> (i < d - 1) = (unat i + 1 < unat d)"
  by (simp add: word_less_nat_alt unat_minus_one) arith

section \<open>Update validation (C6)\<close>

text \<open>
  C6. \<open>validUpdate(u, c)\<close> is true exactly when \<open>u\<close> is non-nil, its peer is non-nil,
  \<open>u.index < D - 1\<close> and \<open>len(u.filter) = M/8\<close>; the dispatcher hands an update to
  \<open>processUpdate\<close> only when it is valid, so an update whose index is at least \<open>D - 1\<close>
  or whose filter has the wrong length leaves the node as it is and does nothing. The
  length of a Go slice is a non-negative \<open>int\<close>, hence below \<open>2^63\<close>. \<open>D - 1\<close> is the
  \<open>uint32\<close> expression of the code; for a depth other than 0 it is the number \<open>D - 1\<close>.
\<close>

theorem validUpdate_guard:
  fixes n :: "'h Node"
  assumes "\<forall>v. u = Some v \<longrightarrow> length (filter_u v) < 2 ^ 63"
  shows "(validUpdate u c \<longleftrightarrow>
           (\<exists>v. u = Some v \<and> peer v \<noteq> None \<and> index v < FiltersDepth c - 1 \<and>
                length (filter_u v) = filterSize c))
       \<and> ((\<exists>v. u = Some v \<and> (FiltersDepth (cfg n) - 1 \<le> index v \<or>
                length (filter_u v) \<noteq> filterSize (cfg n))) \<longrightarrow>
            dispatchUpdate now n u = Inr (n, []))
       \<and> (FiltersDepth c \<noteq> 0 \<longrightarrow>
            (\<forall>i. i < FiltersDepth c - 1 \<longleftrightarrow> unat i + 1 < unat (FiltersDepth c)))"
proof (intro conjI)
  show "validUpdate u c \<longleftrightarrow>
           (\<exists>v. u = Some v \<and> peer v \<noteq> None \<and> index v < FiltersDepth c - 1 \<and>
                length (filter_u v) = filterSize c)"
    using assms by (cases u) (auto simp: validUpdate_def filterSize_def len_word64)
  show "(\<exists>v. u = Some v \<and> (FiltersDepth (cfg n) - 1 \<le> index v \<or>
                length (filter_u v) \<noteq> filterSize (cfg n))) \<longrightarrow>
            dispatchUpdate now n u = Inr (n, [])"
    using assms
    by (cases u) (auto simp: dispatchUpdate_def validUpdate_def filterSize_def len_word64)
  show "FiltersDepth c \<noteq> 0 \<longrightarrow>
            (\<forall>i. i < FiltersDepth c - 1 \<longleftrightarrow> unat i + 1 < unat (FiltersDepth c))"
    by (simp add: word_less_pred)
qed

theorem validUpdate_guard_witness:
  "validUpdate (Some upd_ok) cfg3 \<and> \<not> validUpdate (Some upd_top) cfg3 \<and>
   dispatchUpdate 7 node0 (Some upd_top) = Inr (node0, []) \<and>
   dispatchUpdate 7 node0 (Some upd_short) = Inr (node0, [])"
  using validUpdate_guard [of "Some upd_ok" cfg3 node0 7]
    validUpdate_guard [of "Some upd_top" cfg3 node0 7]
    validUpdate_guard [of "Some upd_short" cfg3 node0 7]
  by (simp add: upd_ok_def upd_top_def upd_short_def cfg3_def node0_def newNode_def
      filterSize_def)

section \<open>Rejected updates (C7)\<close>

text \<open>
  C7 says that every invalid update (wrong filter length, out-of-range index, null
  peer-id, sender not connected) is discarded without a change of the node and that the
  \<open>UpdatesFail\<close> tap is emitted. The first three kinds are stopped by \<open>validUpdate\<close> in
  the dispatcher, which emits nothing: with every tap installed, an update with a
  one-byte filter leaves no record at all.
\<close>

theorem invalid_update_no_fail_tap_counterexample:
  "\<not> validUpdate (Some upd_short) (cfg node0) \<and>
   log node0 = Some logAll \<and> UpdatesFail logAll \<and>
   dispatchUpdate 7 node0 (Some upd_short) = Inr (node0, [])"
  by (simp add: upd_short_def node0_def newNode_def cfg3_def validUpdate_def
      dispatchUpdate_def logAll_def)

text \<open>
  C7 as amended. An update that \<open>validUpdate\<close> rejects is discarded by the dispatcher
  with no change of the node and no tap. A valid update whose sender the overlay does
  not report as connected is discarded by \<open>processUpdate\<close> with no change of the node;
  \<open>updateReceived\<close> and then \<open>updateFail\<close> are called, and \<open>updateFail\<close> puts its record
  on the \<open>UpdatesFail\<close> tap when that tap is installed.
\<close>

theorem invalid_update_discarded:
  fixes n :: "'h Node"
  shows "(\<not> validUpdate u (cfg n) \<longrightarrow> dispatchUpdate now n u = Inr (n, []))
       \<and> (validUpdate (Some v) (cfg n) \<and> \<not> isConnected (net n) (peer v) \<longrightarrow>
            dispatchUpdate now n (Some v) =
              Inr (n, updateReceived (log n) v @ updateFail (log n) v))
       \<and> (\<not> isConnected (net n) (peer v) \<longrightarrow>
            processUpdate now n v = Inr (n, updateReceived (log n) v @ updateFail (log n) v))
       \<and> (\<forall>lg. log n = Some lg \<and> UpdatesFail lg \<longrightarrow>
            updateFail (log n) v = [LogUpdate TapUpdatesFail v None])"
  by (simp add: dispatchUpdate_def processUpdate_def updateFail_def offerUpdate_def)

theorem invalid_update_discarded_witness:
  "\<not> validUpdate (Some upd_short) (cfg node0) \<and>
   dispatchUpdate 7 node0 (Some upd_short) = Inr (node0, []) \<and>
   validUpdate (Some upd_stranger) (cfg node0) \<and>
   \<not> isConnected (net node0) (peer upd_stranger) \<and>
   dispatchUpdate 7 node0 (Some upd_stranger) =
     Inr (node0, [LogUpdate TapUpdatesReceived upd_stranger None,
                  LogUpdate TapUpdatesFail upd_stranger None])"
  using invalid_update_discarded [of "Some upd_short" node0 7 upd_stranger]
  by (simp add: upd_short_def upd_stranger_def node0_def newNode_def cfg3_def net23_def
      validUpdate_def updateReceived_def updateFail_def offerUpdate_def logAll_def)

section \<open>Processing an update twice (C8)\<close>

lemma processUpdate_accepted:
  assumes "isConnected (net n) (peer u)" and "processUpdate t n u = Inr (n1, a1)"
  shows "\<exists>p d. peer u = Some p \<and> unat (index u) < length (filters d) \<and>
           unat (index u) < length (timestamps d) \<and>
           d = (case map_of (peers n) p of Some d \<Rightarrow> d
                | None \<Rightarrow> \<lparr>filters = newFilters (cfg n),
                      timestamps = replicate (unat (FiltersDepth (cfg n))) 0\<rparr>) \<and>
           n1 = n\<lparr>peers := AList.update p
                   (d\<lparr>filters := (filters d)[unat (index u) := filter_u u],
                      timestamps := (timestamps d)[unat (index u) := t]\<rparr>) (peers n)\<rparr> \<and>
           a1 = updateReceived (log n) u @ updateSuccess (log n) u"
  using assms
  by (auto simp: processUpdate_def Let_def split: option.splits if_splits)

text \<open>
  C8 says that processing the same update a second time leaves the peer's entry as the
  first processing left it, timestamps included. The second processing stamps the level
  with the clock reading of its own time: \<open>upd_ok\<close> processed at 1000 and again at 2000
  gives two different entries for peer \<open>[2]\<close>.
\<close>

theorem processUpdate_twice_counterexample:
  "isConnected (net node0) (peer upd_ok) \<and> validUpdate (Some upd_ok) (cfg node0) \<and>
   processUpdate 1000 node0 upd_ok =
     Inr (node_t1, [LogUpdate TapUpdatesReceived upd_ok None,
                    LogUpdate TapUpdatesSuccess upd_ok None]) \<and>
   processUpdate 2000 node_t1 upd_ok =
     Inr (node_t2, [LogUpdate TapUpdatesReceived upd_ok None,
                    LogUpdate TapUpdatesSuccess upd_ok None]) \<and>
   map_of (peers node_t2) [2] \<noteq> map_of (peers node_t1) [2]"
  by (simp add: processUpdate_def node0_def newNode_def node_t1_def node_t2_def upd_ok_def
      net23_def validUpdate_def newFilters_cfg3 timestamps_cfg3
      updateReceived_def updateSuccess_def offerUpdate_def logAll_def)
    (simp add: cfg3_def)

text \<open>The result of processing an accepted update once more.\<close>

lemma processUpdate_again:
  assumes "isConnected (net n) (peer u)" and "processUpdate t1 n u = Inr (n1, a1)"
  shows "\<exists>p d1. peer u = Some p \<and> map_of (peers n1) p = Some d1 \<and>
           filters d1 ! unat (index u) = filter_u u \<and>
           timestamps d1 ! unat (index u) = t1 \<and>
           processUpdate t2 n1 u =
             Inr (n1\<lparr>peers := AList.update p
                       (d1\<lparr>timestamps := (timestamps d1)[unat (index u) := t2]\<rparr>)
                       (peers n1)\<rparr>, a1) \<and>
           (t2 = t1 \<longrightarrow> processUpdate t2 n1 u = Inr (n1, a1))"
proof -
  from processUpdate_accepted [OF assms] obtain p d where
    p: "peer u = Some p" and i1: "unat (index u) < length (filters d)"
    and i2: "unat (index u) < length (timestamps d)"
    and n1: "n1 = n\<lparr>peers := AList.update p
                   (d\<lparr>filters := (filters d)[unat (index u) := filter_u u],
                      timestamps := (timestamps d)[unat (index u) := t1]\<rparr>) (peers n)\<rparr>"
    and a1: "a1 = updateReceived (log n) u @ updateSuccess (log n) u"
    by blast
  let ?d1 = "d\<lparr>filters := (filters d)[unat (index u) := filter_u u],
                      timestamps := (timestamps d)[unat (index u) := t1]\<rparr>"
  have m: "map_of (peers n1) p = Some ?d1"
    by (simp add: n1 update_conv')
  have same: "AList.update p ?d1 (peers n1) = peers n1"
    by (simp add: n1)
  have run: "processUpdate t2 n1 u =
             Inr (n1\<lparr>peers := AList.update p
                       (?d1\<lparr>timestamps := (timestamps ?d1)[unat (index u) := t2]\<rparr>)
                       (peers n1)\<rparr>, a1)"
    using assms(1) p i1 i2 m
    by (simp add: processUpdate_def Let_def n1 a1)
  have idem: "?d1\<lparr>timestamps := (timestamps ?d1)[unat (index u) := t1]\<rparr> = ?d1"
    by simp
  have "n1\<lparr>peers := AList.update p ?d1 (peers n1)\<rparr> = n1"
    by (simp only: same) simp
  then have "t2 = t1 \<longrightarrow> processUpdate t2 n1 u = Inr (n1, a1)"
    using run by (simp only: idem) simp
  with p m run i1 i2 show ?thesis
    by (intro exI [of _ p] exI [of _ ?d1]) simp
qed

text \<open>
  C8 as amended. After an accepted update \<open>u\<close> from a connected peer, processing the same
  update again (at clock reading \<open>t2\<close>) succeeds and changes nothing but the timestamp of
  level \<open>u.index\<close> in that peer's entry, which becomes \<open>t2\<close>: the filters at every level
  and the timestamps of the other levels stay, and so does every other entry. The node
  is left identical exactly when the clock reads the same value both times.
\<close>

theorem processUpdate_twice:
  assumes "isConnected (net n) (peer u)" and "processUpdate t1 n u = Inr (n1, a1)"
  shows "\<exists>p d1. peer u = Some p \<and> map_of (peers n1) p = Some d1 \<and>
           filters d1 ! unat (index u) = filter_u u \<and>
           timestamps d1 ! unat (index u) = t1 \<and>
           processUpdate t2 n1 u =
             Inr (n1\<lparr>peers := AList.update p
                       (d1\<lparr>timestamps := (timestamps d1)[unat (index u) := t2]\<rparr>)
                       (peers n1)\<rparr>, a1) \<and>
           (t2 = t1 \<longrightarrow> processUpdate t2 n1 u = Inr (n1, a1)) \<and>
           (processUpdate t2 n1 u = Inr (n1, a1) \<longrightarrow> t2 = t1)"
proof -
  from processUpdate_again [OF assms, of t2] obtain p d1 where
    a: "peer u = Some p" "map_of (peers n1) p = Some d1"
      "filters d1 ! unat (index u) = filter_u u"
      "timestamps d1 ! unat (index u) = t1"
      "processUpdate t2 n1 u =
             Inr (n1\<lparr>peers := AList.update p
                       (d1\<lparr>timestamps := (timestamps d1)[unat (index u) := t2]\<rparr>)
                       (peers n1)\<rparr>, a1)"
      "t2 = t1 \<longrightarrow> processUpdate t2 n1 u = Inr (n1, a1)"
    by blast
  from processUpdate_accepted [OF assms] obtain q d where
    q: "peer u = Some q" "unat (index u) < length (timestamps d)"
    "n1 = n\<lparr>peers := AList.update q
                   (d\<lparr>filters := (filters d)[unat (index u) := filter_u u],
                      timestamps := (timestamps d)[unat (index u) := t1]\<rparr>) (peers n)\<rparr>"
    by blast
  have d1eq: "d1 = d\<lparr>filters := (filters d)[unat (index u) := filter_u u],
                      timestamps := (timestamps d)[unat (index u) := t1]\<rparr>"
    using a(1,2) q(1,3) by (simp add: update_conv')
  have len: "unat (index u) < length (timestamps d1)"
    using q(2) by (subst d1eq) simp
  have "t2 = t1" if "processUpdate t2 n1 u = Inr (n1, a1)"
  proof -
    from that a(5) have
      "n1\<lparr>peers := AList.update p
                       (d1\<lparr>timestamps := (timestamps d1)[unat (index u) := t2]\<rparr>)
                       (peers n1)\<rparr> = n1" by simp
    then have "peers (n1\<lparr>peers := AList.update p
                       (d1\<lparr>timestamps := (timestamps d1)[unat (index u) := t2]\<rparr>)
                       (peers n1)\<rparr>) = peers n1" by simp
    then have "map_of (AList.update p
                       (d1\<lparr>timestamps := (timestamps d1)[unat (index u) := t2]\<rparr>)
                       (peers n1)) p = map_of (peers n1) p" by simp
    then have "d1\<lparr>timestamps := (timestamps d1)[unat (index u) := t2]\<rparr> = d1"
      using a(2) by (simp add: update_conv')
    then have "timestamps (d1\<lparr>timestamps := (timestamps d1)[unat (index u) := t2]\<rparr>)
               = timestamps d1" by simp
    then have "(timestamps d1)[unat (index u) := t2] ! unat (index u) =
               timestamps d1 ! unat (index u)" by simp
    then show ?thesis using len a(4) by simp
  qed
  with a show ?thesis by blast
qed

theorem processUpdate_twice_witness:
  "isConnected (net node0) (peer upd_ok) \<and>
   processUpdate 1000 node0 upd_ok =
     Inr (node_t1, [LogUpdate TapUpdatesReceived upd_ok None,
                    LogUpdate TapUpdatesSuccess upd_ok None]) \<and>
   processUpdate 2000 node_t1 upd_ok =
     Inr (node_t2, [LogUpdate TapUpdatesReceived upd_ok None,
                    LogUpdate TapUpdatesSuccess upd_ok None]) \<and>
   map (\<lambda>(p, d). (p, filters d)) (peers node_t2) =
     map (\<lambda>(p, d). (p, filters d)) (peers node_t1)"
  using processUpdate_twice [of node0 upd_ok 1000 node_t1
      "[LogUpdate TapUpdatesReceived upd_ok None, LogUpdate TapUpdatesSuccess upd_ok None]"
      2000]
  by (simp add: processUpdate_def node0_def newNode_def node_t1_def node_t2_def upd_ok_def
      net23_def newFilters_cfg3 timestamps_cfg3
      updateReceived_def updateSuccess_def offerUpdate_def logAll_def)

section \<open>Subscription and topic tables (C9)\<close>

lemma keys_update: "keys (AList.update k v al) = insert k (keys al)"
  by (simp add: keys_def dom_update)

lemma keys_delete: "keys (AList.delete k al) = keys al - {k}"
  by (simp add: keys_def delete_keys)

lemma map_of_None_keys: "(map_of al k = None) = (k \<notin> keys al)"
  by (simp add: keys_def map_of_eq_None_iff)

lemma map_of_Some_keys: "map_of al k = Some v \<Longrightarrow> k \<in> keys al"
  using map_of_None_keys [of al k] by simp

text \<open>\<open>Subscribe\<close> adds the digest to the subscription table, and to the topic table
  when it was not subscribed before.\<close>

lemma Subscribe_keys:
  "keys (subscribers (Subscribe h n t r)) = insert (h t) (keys (subscribers n)) \<and>
   keys (topics (Subscribe h n t r)) =
     (if h t \<in> keys (subscribers n) then keys (topics n)
      else insert (h t) (keys (topics n)))"
  by (auto simp: Subscribe_def Let_def keys_update map_of_None_keys
      dest: map_of_Some_keys split: option.splits)

text \<open>\<open>Unsubscribe\<close> removes the digest from both tables or from neither.\<close>

lemma Unsubscribe_keys:
  "keys (subscribers (Unsubscribe h n t r)) = keys (subscribers n) \<and>
   keys (topics (Unsubscribe h n t r)) = keys (topics n) \<or>
   keys (subscribers (Unsubscribe h n t r)) = keys (subscribers n) - {h t} \<and>
   keys (topics (Unsubscribe h n t r)) = keys (topics n) - {h t}"
proof (cases "map_of (subscribers n) (h t)")
  case None
  then show ?thesis by (simp add: Unsubscribe_def)
next
  case (Some receivers)
  then have k: "insert (h t) (keys (subscribers n)) = keys (subscribers n)"
    by (auto dest: map_of_Some_keys)
  show ?thesis
    using Some k
    by (simp add: Unsubscribe_def Let_def keys_update keys_delete)
qed

text \<open>
  C9. The subscription table and the topic table have the same key set after every
  \<open>Subscribe\<close> and every \<open>Unsubscribe\<close>: in every node reached from a new node by any
  sequence of the two operations, and after either operation on any node whose two key
  sets agree.
\<close>

theorem tables_same_keys:
  fixes n :: "'h Node" and d :: 'h
  shows "keys (subscribers (runCalls h (newNode ov l c d) cs)) =
         keys (topics (runCalls h (newNode ov l c d) cs))
       \<and> (keys (subscribers n) = keys (topics n) \<longrightarrow>
            keys (subscribers (Subscribe h n t r)) = keys (topics (Subscribe h n t r)) \<and>
            keys (subscribers (Unsubscribe h n t r)) = keys (topics (Unsubscribe h n t r)))"
proof -
  have step_S: "keys (subscribers (Subscribe h m t r)) = keys (topics (Subscribe h m t r))"
    if "keys (subscribers m) = keys (topics m)" for m :: "'h Node" and t r
    using that Subscribe_keys [of h m t r] by auto
  have step_U: "keys (subscribers (Unsubscribe h m t r)) = keys (topics (Unsubscribe h m t r))"
    if "keys (subscribers m) = keys (topics m)" for m :: "'h Node" and t r
    using that Unsubscribe_keys [of h m t r] by auto
  have run: "keys (subscribers (runCalls h m cs)) = keys (topics (runCalls h m cs))"
    if "keys (subscribers m) = keys (topics m)" for m :: "'h Node"
    using that
  proof (induction cs arbitrary: m)
    case Nil
    then show ?case by simp
  next
    case (Cons a cs)
    then show ?case by (cases a) (simp_all add: step_S step_U)
  qed
  have init: "keys (subscribers (newNode ov l c d)) = keys (topics (newNode ov l c d))"
    by (simp add: newNode_def keys_def)
  show ?thesis
    using run [OF init] step_S [of n t r] step_U [of n t r] by simp
qed

theorem tables_same_keys_witness:
  "keys (subscribers node0) = keys (topics node0) \<and>
   keys (subscribers (Subscribe h20 node0 [116] (Some 1))) =
     keys (topics (Subscribe h20 node0 [116] (Some 1))) \<and>
   keys (subscribers (Subscribe h20 node0 [116] (Some 1))) = {h20 [116]} \<and>
   keys (subscribers (runCalls h20 node0
           [CallSubscribe [116] (Some 1), CallUnsubscribe [116] (Some 1)])) = {} \<and>
   keys (topics (runCalls h20 node0
           [CallSubscribe [116] (Some 1), CallUnsubscribe [116] (Some 1)])) = {}"
  using tables_same_keys [of h20 net23 "Some logAll" cfg3 "[]"
      "[CallSubscribe [116] (Some 1), CallUnsubscribe [116] (Some 1)]" node0 "[116]" "Some 1"]
  by (simp add: node0_def newNode_def Subscribe_def Unsubscribe_def keys_def Let_def)

section \<open>Routing: local match (C1)\<close>

lemma deliver_all:
  "deliver (map Some ws) e = Inr (map (\<lambda>w. Write w (message e)) ws)"
  by (induction ws) simp_all

text \<open>
  C1 says that for every event that is not flagged as a duplicate and whose topic digest
  is a key of the subscription table, \<open>route\<close> delivers to every registered sink,
  appends the node's id to the publishers and sends the event to every connected peer.
  \<open>Subscribe\<close> does not validate its receiver and stores a nil one; \<open>deliver\<close> then calls
  \<open>Write\<close> on nil and panics before the append and before any send.
\<close>

theorem route_nil_sink_counterexample:
  "topicDigest ev_news = Some (h20 [110, 101, 119, 115]) \<and>
   witnessAll (history node_nil) (h20 [110, 101, 119, 115] @ message ev_news) =
     (False, [h20 [110, 101, 119, 115] @ [104, 105]]) \<and>
   map_of (subscribers node_nil) (h20 [110, 101, 119, 115]) = Some [None] \<and>
   route h20 pos1 witnessAll (\<lambda>k. 0) node_nil ev_news = Inl NilDereference"
  by (simp add: ev_news_def newEvent_def node_nil_def Subscribe_def node0_def newNode_def
      witnessAll_def route_def isDuplicate_def Let_def)

text \<open>
  C1 as amended. When the event is not flagged as a duplicate and its topic digest is a
  key of the subscription table, and every sink registered for that digest is non-nil
  (the sinks \<open>ws\<close>), \<open>route\<close> writes the payload to every registered sink in order,
  appends the node's own id to the publishers, sends the event so extended to every
  connected peer, and returns; the ttl is the one the event came with.
\<close>

theorem route_local_match:
  assumes "topicDigest e = Some td"
    and "W (history n) (td @ message e) = (False, hist)"
    and "map_of (subscribers n) td = Some (map Some ws)"
  shows "route h pos W intn n e =
           Inr (n\<lparr>history := hist\<rparr>,
                e\<lparr>publishers := publishers e @ [id_net (net n)]\<rparr>,
                eventDeliver (log n) e @
                map (\<lambda>w. Write w (message e)) ws @
                concat (map (\<lambda>peerId.
                    SendEvent peerId (e\<lparr>publishers := publishers e @ [id_net (net n)]\<rparr>) #
                    eventRouteDirect (log n)
                      (e\<lparr>publishers := publishers e @ [id_net (net n)]\<rparr>) peerId)
                  (connectedPeers (net n))))
       \<and> ttl (e\<lparr>publishers := publishers e @ [id_net (net n)]\<rparr>) = ttl e"
  using assms by (simp add: route_def isDuplicate_def deliver_all Let_def)

theorem route_local_match_witness:
  "topicDigest ev_news = Some (h20 [110, 101, 119, 115]) \<and>
   map_of (subscribers node_sub) (h20 [110, 101, 119, 115]) = Some [Some 1] \<and>
   route h20 pos1 witnessAll (\<lambda>k. 0) node_sub ev_news =
     Inr (node_sub\<lparr>history := [h20 [110, 101, 119, 115] @ [104, 105]]\<rparr>,
          ev_news\<lparr>publishers := [[9]]\<rparr>,
          [LogEvent TapEventsDeliver ev_news None,
           Write 1 [104, 105],
           SendEvent [2] (ev_news\<lparr>publishers := [[9]]\<rparr>),
           LogEvent TapEventsRouteDirect (ev_news\<lparr>publishers := [[9]]\<rparr>) (Some [2]),
           SendEvent [3] (ev_news\<lparr>publishers := [[9]]\<rparr>),
           LogEvent TapEventsRouteDirect (ev_news\<lparr>publishers := [[9]]\<rparr>) (Some [3])])"
  using route_local_match [of ev_news "h20 [110, 101, 119, 115]" witnessAll node_sub
      "[h20 [110, 101, 119, 115] @ [104, 105]]" "[1]" h20 pos1 "\<lambda>k. 0"]
  by (simp add: ev_news_def newEvent_def node_sub_def Subscribe_def node0_def newNode_def
      witnessAll_def net23_def eventDeliver_def eventRouteDirect_def offerEvent_def
      logAll_def Let_def)

section \<open>Routing: ttl decay (C2)\<close>

text \<open>
  C2. For an event that is not a duplicate and has no local match, \<open>route\<close> decrements
  the ttl by 1 (in unsigned arithmetic). When the result is 0 the event is dropped: the
  only action is the call of \<open>eventDropTTL\<close>, which sends nothing and puts its record on
  the \<open>EventsDropTTL\<close> tap when installed. Otherwise \<open>route\<close> is the forwarding steps
  (well-informed forwarding, then random fallback) on the decremented event; so these
  steps are reached only with a ttl other than 0. Whenever \<open>route\<close> returns, the event
  carries the decremented ttl.
\<close>

theorem route_ttl_decay:
  assumes "topicDigest e = Some td"
    and "W (history n) (td @ message e) = (False, hist)"
    and "map_of (subscribers n) td = None"
  shows "(ttl e - 1 = 0 \<longrightarrow>
            route h pos W intn n e =
              Inr (n\<lparr>history := hist\<rparr>, e\<lparr>ttl := 0\<rparr>, eventDropTTL (log n) (e\<lparr>ttl := 0\<rparr>)))
       \<and> (ttl e - 1 \<noteq> 0 \<longrightarrow>
            route h pos W intn n e =
              (case forward h pos intn n td (e\<lparr>ttl := ttl e - 1\<rparr>) of
                 Inl x \<Rightarrow> Inl x
               | Inr as \<Rightarrow> Inr (n\<lparr>history := hist\<rparr>, e\<lparr>ttl := ttl e - 1\<rparr>, as)))
       \<and> (\<forall>n' e' as. route h pos W intn n e = Inr (n', e', as) \<longrightarrow> ttl e' = ttl e - 1)
       \<and> (\<forall>l x p y. SendEvent p y \<notin> set (eventDropTTL l x))
       \<and> (\<forall>lg x. log n = Some lg \<and> EventsDropTTL lg \<longrightarrow>
            eventDropTTL (log n) x = [LogEvent TapEventsDropTTL x None])"
  using assms
  by (auto simp: route_def isDuplicate_def eventDropTTL_def offerEvent_def Let_def
      split: sum.splits option.splits)

theorem route_ttl_decay_witness:
  "topicDigest ev_last = Some (h20 [122]) \<and>
   map_of (subscribers node0) (h20 [122]) = None \<and>
   ttl ev_last - 1 = 0 \<and>
   route h20 pos1 witnessAll (\<lambda>k. 0) node0 ev_last =
     Inr (node0\<lparr>history := [h20 [122] @ [104, 105]]\<rparr>, ev_last\<lparr>ttl := 0\<rparr>,
          [LogEvent TapEventsDropTTL (ev_last\<lparr>ttl := 0\<rparr>) None])"
  using route_ttl_decay [of ev_last "h20 [122]" witnessAll node0
      "[h20 [122] @ [104, 105]]" h20 pos1 "\<lambda>k. 0"]
  by (simp add: ev_last_def newEvent_def node0_def newNode_def
      witnessAll_def eventDropTTL_def offerEvent_def logAll_def)

section \<open>Routing: well-informed forwarding (C3)\<close>

lemma negRt_fold:
  "fold (\<lambda>publisher r. if P publisher then True else r) ps b = (b \<or> list_ex P ps)"
  by (induction ps arbitrary: b) auto

lemma negRt_iff: "negRt h pos f c ps = list_ex (filterContains h pos f c) ps"
  by (simp add: negRt_def negRt_fold)

lemma scanPeers_find:
  assumes "\<forall>(p, d) \<in> set tab. i < length (filters d)"
  shows "scanPeers h pos c td ps i tab =
           Inr (map_option (\<lambda>x. fst (snd x))
                  (find (qualifies h pos c td ps) (map (\<lambda>(p, d). (i, p, d)) tab)))"
  using assms
proof (induction tab)
  case Nil
  then show ?case by simp
next
  case (Cons x tab)
  obtain p d where x: "x = (p, d)" by (cases x)
  have i: "i < length (filters d)" using Cons.prems x by simp
  have ih: "scanPeers h pos c td ps i tab =
           Inr (map_option (\<lambda>x. fst (snd x))
                  (find (qualifies h pos c td ps) (map (\<lambda>(p, d). (i, p, d)) tab)))"
    using Cons by simp
  have q: "(filterContainsDigest pos (filters d ! i) c td \<and>
            \<not> negRt h pos (filters d ! i) c ps) = qualifies h pos c td ps (i, p, d)"
    by (simp add: qualifies_def negRt_iff)
  show ?case
    using i ih by (simp add: x Let_def q)
qed

lemma find_append_case:
  "find P (xs @ ys) = (case find P xs of None \<Rightarrow> find P ys | Some x \<Rightarrow> Some x)"
  by (induction xs) auto

lemma scanLevels_find:
  assumes "\<forall>(p, d) \<in> set tab. \<forall>i \<in> set levels. i < length (filters d)"
  shows "scanLevels h pos c td ps tab levels =
           Inr (map_option (\<lambda>x. fst (snd x)) (find (qualifies h pos c td ps) (candidates tab levels)))"
  using assms
proof (induction levels)
  case Nil
  then show ?case by (simp add: candidates_def)
next
  case (Cons i levels)
  have a: "\<forall>(p, d) \<in> set tab. i < length (filters d)"
    using Cons.prems by auto
  have b: "\<forall>(p, d) \<in> set tab. \<forall>i \<in> set levels. i < length (filters d)"
    using Cons.prems by auto
  have c: "candidates tab (i # levels) = map (\<lambda>(p, d). (i, p, d)) tab @ candidates tab levels"
    by (simp add: candidates_def)
  show ?case
    by (simp add: scanPeers_find [OF a] Cons.IH [OF b] c find_append_case
        split: option.splits)
qed

lemma pos1_h20: "pos1 c (h20 (b # bs)) = [unat b mod 16]"
  by (simp add: pos1_def h20_def)

text \<open>
  C3. For an event that is not a duplicate, has no local match and keeps a ttl other
  than 0 after the decrement, on a peer table whose entries have a filter for every
  level: when \<open>(i, p, d)\<close> is the first pair, levels \<open>0\<close> to \<open>D - 1\<close> outermost and
  the peer table in iteration order within a level, whose level-\<open>i\<close> filter contains
  the topic digest and none of the event's publishers, \<open>route\<close> sends the event to \<open>p\<close>
  and to nobody else, calls \<open>eventRouteWell\<close> and returns. The pair taken is a pair of
  the scan, its filter contains the digest and no publisher, and no earlier pair of the
  scan qualifies; a pair whose filter contains a publisher does not qualify.
\<close>

theorem route_well_informed:
  assumes "topicDigest e = Some td"
    and "W (history n) (td @ message e) = (False, hist)"
    and "map_of (subscribers n) td = None"
    and "ttl e - 1 \<noteq> 0"
    and "\<forall>(p, d) \<in> set (peers n). unat (FiltersDepth (cfg n)) \<le> length (filters d)"
    and "find (qualifies h pos (cfg n) td (publishers e))
           (candidates (peers n) [0..<unat (FiltersDepth (cfg n))]) = Some (i, p, d)"
  shows "route h pos W intn n e =
           Inr (n\<lparr>history := hist\<rparr>, e\<lparr>ttl := ttl e - 1\<rparr>,
                SendEvent p (e\<lparr>ttl := ttl e - 1\<rparr>) #
                eventRouteWell (log n) (e\<lparr>ttl := ttl e - 1\<rparr>) p)
       \<and> (\<forall>q x. SendEvent q x \<in> set (SendEvent p (e\<lparr>ttl := ttl e - 1\<rparr>) #
                eventRouteWell (log n) (e\<lparr>ttl := ttl e - 1\<rparr>) p) \<longrightarrow>
              q = p \<and> x = e\<lparr>ttl := ttl e - 1\<rparr>)
       \<and> i < unat (FiltersDepth (cfg n)) \<and> (p, d) \<in> set (peers n)
       \<and> filterContainsDigest pos (filters d ! i) (cfg n) td
       \<and> (\<forall>q \<in> set (publishers e). \<not> filterContains h pos (filters d ! i) (cfg n) q)
       \<and> (\<exists>k < length (candidates (peers n) [0..<unat (FiltersDepth (cfg n))]).
             candidates (peers n) [0..<unat (FiltersDepth (cfg n))] ! k = (i, p, d) \<and>
             (\<forall>j < k. \<not> qualifies h pos (cfg n) td (publishers e)
                (candidates (peers n) [0..<unat (FiltersDepth (cfg n))] ! j)))"
proof -
  let ?e1 = "e\<lparr>ttl := ttl e - 1\<rparr>"
  let ?cs = "candidates (peers n) [0..<unat (FiltersDepth (cfg n))]"
  have wf: "\<forall>(p, d) \<in> set (peers n). \<forall>i \<in> set [0..<unat (FiltersDepth (cfg n))].
              i < length (filters d)"
    using assms(5) by auto
  have scan: "scanLevels h pos (cfg n) td (publishers ?e1) (peers n)
                [0..<unat (FiltersDepth (cfg n))] = Inr (Some p)"
    using scanLevels_find [OF wf, of h pos "cfg n" td "publishers e"] assms(6) by simp
  have r: "route h pos W intn n e =
           Inr (n\<lparr>history := hist\<rparr>, ?e1, SendEvent p ?e1 # eventRouteWell (log n) ?e1 p)"
    using assms(1-4) scan by (simp add: route_def isDuplicate_def forward_def Let_def)
  have only: "\<forall>q x. SendEvent q x \<in> set (SendEvent p ?e1 # eventRouteWell (log n) ?e1 p) \<longrightarrow>
              q = p \<and> x = ?e1"
    by (auto simp: eventRouteWell_def offerEvent_def split: option.splits if_splits)
  from assms(6) obtain k where k: "k < length ?cs" "?cs ! k = (i, p, d)"
      "qualifies h pos (cfg n) td (publishers e) (i, p, d)"
      "\<forall>j < k. \<not> qualifies h pos (cfg n) td (publishers e) (?cs ! j)"
    by (auto simp: find_Some_iff)
  have mem: "(i, p, d) \<in> set ?cs"
    using k(1,2) by (metis nth_mem)
  then have im: "i < unat (FiltersDepth (cfg n)) \<and> (p, d) \<in> set (peers n)"
    by (auto simp: candidates_def)
  have q: "filterContainsDigest pos (filters d ! i) (cfg n) td \<and>
           (\<forall>q \<in> set (publishers e). \<not> filterContains h pos (filters d ! i) (cfg n) q)"
    using k(3) by (simp add: qualifies_def list_ex_iff)
  show ?thesis
    using r only im q k(1,2,4) by blast
qed


lemma upt_3: "[0..<3] = [0, 1, 2]"
  by code_simp

lemma cands_node_peers:
  "candidates (peers node_peers) [0..<unat (FiltersDepth (cfg node_peers))] =
     [(0, [2], \<lparr>filters = [[0, 0], [0, 0], [0, 0]], timestamps = [0, 0, 0]\<rparr>),
      (0, [3], \<lparr>filters = [[0, 0], [4, 0], [0, 0]], timestamps = [0, 0, 0]\<rparr>),
      (1, [2], \<lparr>filters = [[0, 0], [0, 0], [0, 0]], timestamps = [0, 0, 0]\<rparr>),
      (1, [3], \<lparr>filters = [[0, 0], [4, 0], [0, 0]], timestamps = [0, 0, 0]\<rparr>),
      (2, [2], \<lparr>filters = [[0, 0], [0, 0], [0, 0]], timestamps = [0, 0, 0]\<rparr>),
      (2, [3], \<lparr>filters = [[0, 0], [4, 0], [0, 0]], timestamps = [0, 0, 0]\<rparr>)]"
  by (simp add: node_peers_def node0_def newNode_def depth_cfg3 upt_3 candidates_def)

lemma testBit_examples:
  "testBit [0, 0] 2 = False" "testBit [4, 0] 2 = True"
  by (simp_all add: testBit_def)

theorem route_well_informed_witness:
  "find (qualifies h20 pos1 (cfg node_peers) (h20 [114]) (publishers ev_rare))
     (candidates (peers node_peers) [0..<unat (FiltersDepth (cfg node_peers))]) =
     Some (1, [3], \<lparr>filters = [[0, 0], [4, 0], [0, 0]], timestamps = [0, 0, 0]\<rparr>) \<and>
   route h20 pos1 witnessAll (\<lambda>k. 0) node_peers ev_rare =
     Inr (node_peers\<lparr>history := [h20 [114] @ [104, 105]]\<rparr>, ev_rare\<lparr>ttl := 2\<rparr>,
          [SendEvent [3] (ev_rare\<lparr>ttl := 2\<rparr>),
           LogEvent TapEventsRouteWell (ev_rare\<lparr>ttl := 2\<rparr>) (Some [3])])"
proof -
  have f: "find (qualifies h20 pos1 (cfg node_peers) (h20 [114]) (publishers ev_rare))
     (candidates (peers node_peers) [0..<unat (FiltersDepth (cfg node_peers))]) =
     Some (1, [3], \<lparr>filters = [[0, 0], [4, 0], [0, 0]], timestamps = [0, 0, 0]\<rparr>)"
    by (simp add: cands_node_peers qualifies_def filterContainsDigest_def pos1_h20
        testBit_examples ev_rare_def newEvent_def)
  have td: "topicDigest ev_rare = Some (h20 [114])"
    by (simp add: ev_rare_def newEvent_def)
  have nd: "witnessAll (history node_peers) (h20 [114] @ message ev_rare) =
              (False, [h20 [114] @ [104, 105]])"
    by (simp add: witnessAll_def node_peers_def node0_def newNode_def ev_rare_def newEvent_def)
  have nl: "map_of (subscribers node_peers) (h20 [114]) = None"
    by (simp add: node_peers_def node0_def newNode_def)
  have t: "ttl ev_rare - 1 \<noteq> 0"
    by (simp add: ev_rare_def newEvent_def)
  have wf: "\<forall>(p, d) \<in> set (peers node_peers).
              unat (FiltersDepth (cfg node_peers)) \<le> length (filters d)"
    by (simp add: node_peers_def node0_def newNode_def depth_cfg3)
  show ?thesis
    using route_well_informed [where W = witnessAll and n = node_peers and e = ev_rare
        and h = h20 and pos = pos1 and intn = "\<lambda>k. 0", OF td nd nl t wf f] f
    by (simp add: ev_rare_def newEvent_def eventRouteWell_def offerEvent_def
        node_peers_def node0_def newNode_def logAll_def)
qed

section \<open>Routing: random fallback (C4)\<close>

text \<open>
  C4. Same event and peer table, but no (level, peer) pair qualifies. With no connected
  peer \<open>route\<close> does nothing at all: no send, no tap. Otherwise it sends the event to
  the connected peer at the index drawn by \<open>rand.Intn(len(peers))\<close> (a draw below the
  length, by the contract of \<open>Intn\<close>), and calls \<open>eventRouteRandom\<close>. When the overlay
  lists every neighbour once, each neighbour is chosen by exactly one of the equally
  likely draws, which is what makes the choice uniform.
\<close>

theorem route_random_fallback:
  assumes "topicDigest e = Some td"
    and "W (history n) (td @ message e) = (False, hist)"
    and "map_of (subscribers n) td = None"
    and "ttl e - 1 \<noteq> 0"
    and "\<forall>(p, d) \<in> set (peers n). unat (FiltersDepth (cfg n)) \<le> length (filters d)"
    and "find (qualifies h pos (cfg n) td (publishers e))
           (candidates (peers n) [0..<unat (FiltersDepth (cfg n))]) = None"
    and "connectedPeers (net n) \<noteq> [] \<longrightarrow>
           intn (length (connectedPeers (net n))) < length (connectedPeers (net n))"
  shows "(connectedPeers (net n) = [] \<longrightarrow>
            route h pos W intn n e = Inr (n\<lparr>history := hist\<rparr>, e\<lparr>ttl := ttl e - 1\<rparr>, []))
       \<and> (connectedPeers (net n) \<noteq> [] \<longrightarrow>
            route h pos W intn n e =
              Inr (n\<lparr>history := hist\<rparr>, e\<lparr>ttl := ttl e - 1\<rparr>,
                   SendEvent (connectedPeers (net n) ! intn (length (connectedPeers (net n))))
                     (e\<lparr>ttl := ttl e - 1\<rparr>) #
                   eventRouteRandom (log n) (e\<lparr>ttl := ttl e - 1\<rparr>)
                     (connectedPeers (net n) ! intn (length (connectedPeers (net n))))) \<and>
            connectedPeers (net n) ! intn (length (connectedPeers (net n)))
              \<in> set (connectedPeers (net n)))
       \<and> (distinct (connectedPeers (net n)) \<longrightarrow>
            (\<forall>t \<in> set (connectedPeers (net n)).
               \<exists>!r. r < length (connectedPeers (net n)) \<and> connectedPeers (net n) ! r = t))"
proof -
  let ?e1 = "e\<lparr>ttl := ttl e - 1\<rparr>"
  have wf: "\<forall>(p, d) \<in> set (peers n). \<forall>i \<in> set [0..<unat (FiltersDepth (cfg n))].
              i < length (filters d)"
    using assms(5) by auto
  have scan: "scanLevels h pos (cfg n) td (publishers ?e1) (peers n)
                [0..<unat (FiltersDepth (cfg n))] = Inr None"
    using scanLevels_find [OF wf, of h pos "cfg n" td "publishers e"] assms(6) by simp
  have r: "route h pos W intn n e =
             (case randomPeer intn n of
                Inl x \<Rightarrow> Inl x
              | Inr None \<Rightarrow> Inr (n\<lparr>history := hist\<rparr>, ?e1, [])
              | Inr (Some t) \<Rightarrow>
                  Inr (n\<lparr>history := hist\<rparr>, ?e1,
                       SendEvent t ?e1 # eventRouteRandom (log n) ?e1 t))"
    using assms(1-4) scan
    by (simp add: route_def isDuplicate_def forward_def Let_def split: sum.splits option.splits)
  have uniq: "distinct (connectedPeers (net n)) \<longrightarrow>
            (\<forall>t \<in> set (connectedPeers (net n)).
               \<exists>!r. r < length (connectedPeers (net n)) \<and> connectedPeers (net n) ! r = t)"
    by (auto simp: in_set_conv_nth nth_eq_iff_index_eq)
  show ?thesis
    using r assms(7) uniq by (simp add: randomPeer_def Let_def)
qed

theorem route_random_fallback_witness:
  "find (qualifies h20 pos1 (cfg node0) (h20 [110, 101, 119, 115]) (publishers ev_news))
     (candidates (peers node0) [0..<unat (FiltersDepth (cfg node0))]) = None \<and>
   connectedPeers (net node0) = [[2], [3]] \<and>
   route h20 pos1 witnessAll (\<lambda>k. 0) node0 ev_news =
     Inr (node0\<lparr>history := [h20 [110, 101, 119, 115] @ [104, 105]]\<rparr>, ev_news\<lparr>ttl := 4\<rparr>,
          [SendEvent [2] (ev_news\<lparr>ttl := 4\<rparr>),
           LogEvent TapEventsRouteRandom (ev_news\<lparr>ttl := 4\<rparr>) (Some [2])])"
  using route_random_fallback [of ev_news "h20 [110, 101, 119, 115]" witnessAll node0
      "[h20 [110, 101, 119, 115] @ [104, 105]]" h20 pos1 "\<lambda>k. 0"]
  by (simp add: ev_news_def newEvent_def node0_def newNode_def witnessAll_def net23_def
      candidates_def eventRouteRandom_def offerEvent_def logAll_def cfg3_def upt_3)

section \<open>Publishing with a default ttl of 0 (C10)\<close>

lemma unat_max32: "unat (- 1 :: 32 word) = 2 ^ 32 - 1"
  by (simp add: unsigned_minus_1_eq_mask mask_eq_exp_minus_1)

lemma max32: "(- 1 :: 32 word) = 4294967295"
  by simp

lemma offerEvent_no_send: "SendEvent q x \<notin> set (offerEvent l ch t e target)"
  by (simp add: offerEvent_def split: option.splits)

lemma offerEvent_tap: "LogEvent t' x y \<in> set (offerEvent l ch t e target) \<Longrightarrow> t' = t"
  by (auto simp: offerEvent_def split: option.splits if_splits)

lemma forward_no_ttl_tap:
  "forward h pos intn n td e = Inr as \<Longrightarrow> LogEvent TapEventsDropTTL x t \<notin> set as"
  by (auto simp: forward_def eventRouteWell_def eventRouteRandom_def
      split: sum.splits option.splits dest: offerEvent_tap)

lemma forward_find:
  assumes "\<forall>(p, d) \<in> set (peers n). unat (FiltersDepth (cfg n)) \<le> length (filters d)"
  shows "forward h pos intn n td e =
           (case find (qualifies h pos (cfg n) td (publishers e))
                   (candidates (peers n) [0..<unat (FiltersDepth (cfg n))]) of
              Some (i, p, d) \<Rightarrow> Inr (SendEvent p e # eventRouteWell (log n) e p)
            | None \<Rightarrow>
                (case randomPeer intn n of
                   Inl x \<Rightarrow> Inl x
                 | Inr None \<Rightarrow> Inr []
                 | Inr (Some p) \<Rightarrow> Inr (SendEvent p e # eventRouteRandom (log n) e p)))"
proof -
  have wf: "\<forall>(p, d) \<in> set (peers n). \<forall>i \<in> set [0..<unat (FiltersDepth (cfg n))].
              i < length (filters d)"
    using assms by auto
  show ?thesis
    by (simp add: forward_def scanLevels_find [OF wf] split: option.splits)
qed

text \<open>
  C10 says that an event published with a configured default ttl of 0, not a duplicate and
  without local match, has its ttl wrapped to the maximum by the decrement and is
  therefore forwarded onward. The wrap is there, but the forwarding steps may still have
  nobody to send to: on a node without peer entries and without connected neighbours
  the only action is the \<open>eventPublished\<close> record.
\<close>

theorem publish_ttl_zero_counterexample:
  "DefaultEventTTL (cfg node_alone) = 0 \<and>
   witnessAll (history node_alone) (h20 [122] @ [104, 105]) =
     (False, [h20 [122] @ [104, 105]]) \<and>
   map_of (subscribers node_alone) (h20 [122]) = None \<and>
   Publish h20 pos1 witnessAll (\<lambda>k. 0) node_alone [122] [104, 105] =
     Inr (node_alone\<lparr>history := [h20 [122] @ [104, 105]]\<rparr>,
          newEvent h20 [122] [104, 105] 4294967295,
          [LogEvent TapEventsPublished (newEvent h20 [122] [104, 105] 0) None])"
  by (simp add: Publish_def route_def isDuplicate_def forward_def randomPeer_def
      node_alone_def newNode_def net_alone_def cfg_ttl0_def cfg3_def newEvent_def
      witnessAll_def eventPublished_def offerEvent_def logAll_def Let_def upt_3)

text \<open>
  C10 as amended. \<open>Publish\<close> does not validate the ttl. With a default ttl of 0, for an
  event that is not a duplicate and has no local match, the decrement wraps the ttl to
  \<open>2^32 - 1\<close>; the event is not dropped for ttl exhaustion (no \<open>EventsDropTTL\<close> record)
  but handed to the forwarding steps with that ttl. On a peer table with a filter for
  every level, and with \<open>Intn\<close> keeping its contract, the event is sent on exactly when
  a pair qualifies or a neighbour is connected; otherwise it is dropped silently.
\<close>

theorem publish_ttl_zero:
  assumes "DefaultEventTTL (cfg n) = 0"
    and "W (history n) (h topic @ msg) = (False, hist)"
    and "map_of (subscribers n) (h topic) = None"
  shows "Publish h pos W intn n topic msg =
           (case forward h pos intn n (h topic) (newEvent h topic msg (- 1)) of
              Inl x \<Rightarrow> Inl x
            | Inr as \<Rightarrow>
                Inr (n\<lparr>history := hist\<rparr>, newEvent h topic msg (- 1),
                     eventPublished (log n) (newEvent h topic msg 0) @ as))
       \<and> (\<forall>n' e' as. Publish h pos W intn n topic msg = Inr (n', e', as) \<longrightarrow>
             ttl e' = 4294967295 \<and> unat (ttl e') = 2 ^ 32 - 1 \<and>
             (\<forall>x t. LogEvent TapEventsDropTTL x t \<notin> set as))
       \<and> ((\<forall>(p, d) \<in> set (peers n). unat (FiltersDepth (cfg n)) \<le> length (filters d)) \<and>
           (connectedPeers (net n) \<noteq> [] \<longrightarrow>
              intn (length (connectedPeers (net n))) < length (connectedPeers (net n))) \<longrightarrow>
           (\<exists>n' e' as. Publish h pos W intn n topic msg = Inr (n', e', as) \<and>
              ((\<exists>q. SendEvent q e' \<in> set as) \<longleftrightarrow>
               (connectedPeers (net n) \<noteq> [] \<or>
                find (qualifies h pos (cfg n) (h topic) [])
                  (candidates (peers n) [0..<unat (FiltersDepth (cfg n))]) \<noteq> None))))"
proof -
  let ?e0 = "newEvent h topic msg 0"
  let ?e1 = "newEvent h topic msg (- 1)"
  have e1: "?e0\<lparr>ttl := ttl ?e0 - 1\<rparr> = ?e1"
    by (simp add: newEvent_def)
  have P: "Publish h pos W intn n topic msg =
           (case forward h pos intn n (h topic) ?e1 of
              Inl x \<Rightarrow> Inl x
            | Inr as \<Rightarrow> Inr (n\<lparr>history := hist\<rparr>, ?e1, eventPublished (log n) ?e0 @ as))"
    using assms
    by (simp add: Publish_def route_def isDuplicate_def Let_def newEvent_def
        split: sum.splits)
  have notap: "\<forall>n' e' as. Publish h pos W intn n topic msg = Inr (n', e', as) \<longrightarrow>
             ttl e' = 4294967295 \<and> unat (ttl e') = 2 ^ 32 - 1 \<and>
             (\<forall>x t. LogEvent TapEventsDropTTL x t \<notin> set as)"
    using unat_max32
    by (auto simp: P newEvent_def eventPublished_def split: sum.splits
        dest: forward_no_ttl_tap offerEvent_tap)
  have fwd: "\<exists>n' e' as. Publish h pos W intn n topic msg = Inr (n', e', as) \<and>
              ((\<exists>q. SendEvent q e' \<in> set as) \<longleftrightarrow>
               (connectedPeers (net n) \<noteq> [] \<or>
                find (qualifies h pos (cfg n) (h topic) [])
                  (candidates (peers n) [0..<unat (FiltersDepth (cfg n))]) \<noteq> None))"
    if wf: "\<forall>(p, d) \<in> set (peers n). unat (FiltersDepth (cfg n)) \<le> length (filters d)"
      and c: "connectedPeers (net n) \<noteq> [] \<longrightarrow>
              intn (length (connectedPeers (net n))) < length (connectedPeers (net n))"
  proof (cases "find (qualifies h pos (cfg n) (h topic) [])
                  (candidates (peers n) [0..<unat (FiltersDepth (cfg n))])")
    case None
    then show ?thesis
      using c
      by (auto simp: P forward_find [OF wf] newEvent_def randomPeer_def Let_def
          eventPublished_def eventRouteRandom_def offerEvent_no_send)
  next
    case (Some x)
    then show ?thesis
      by (cases x) (auto simp: P forward_find [OF wf] newEvent_def)
  qed
  show ?thesis
    using P notap fwd by blast
qed

theorem publish_ttl_zero_witness:
  "DefaultEventTTL (cfg node_ttl0) = 0 \<and>
   witnessAll (history node_ttl0) (h20 [122] @ [104, 105]) =
     (False, [h20 [122] @ [104, 105]]) \<and>
   map_of (subscribers node_ttl0) (h20 [122]) = None \<and>
   Publish h20 pos1 witnessAll (\<lambda>k. 0) node_ttl0 [122] [104, 105] =
     Inr (node_ttl0\<lparr>history := [h20 [122] @ [104, 105]]\<rparr>,
          newEvent h20 [122] [104, 105] 4294967295,
          [LogEvent TapEventsPublished (newEvent h20 [122] [104, 105] 0) None,
           SendEvent [2] (newEvent h20 [122] [104, 105] 4294967295),
           LogEvent TapEventsRouteRandom (newEvent h20 [122] [104, 105] 4294967295)
             (Some [2])])"
  using publish_ttl_zero [of node_ttl0 witnessAll h20 "[122]" "[104, 105]"
      "[h20 [122] @ [104, 105]]" pos1 "\<lambda>k. 0"]
  by (simp add: forward_def randomPeer_def
      node_ttl0_def newNode_def net23_def cfg_ttl0_def cfg3_def newEvent_def
      witnessAll_def eventPublished_def eventRouteRandom_def offerEvent_def logAll_def
      Let_def upt_3)

section \<open>Filter propagation (C5)\<close>

subsection \<open>Filter primitives\<close>

lemma setBit_length: "length (setBit f p) = length f"
  by (simp add: setBit_def)

lemma bit_one_shifted: "bit (push_bit (p mod 8) 1 :: byte) (p mod 8)"
  by (simp add: bit_simps)

lemma testBit_setBit_same: "p div 8 < length f \<Longrightarrow> testBit (setBit f p) p"
  using bit_one_shifted [of p] by (simp add: setBit_def testBit_def bit_or_iff)

lemma testBit_setBit_mono: "testBit f q \<Longrightarrow> testBit (setBit f p) q"
  by (cases "p div 8 = q div 8") (auto simp: setBit_def testBit_def bit_or_iff)

lemma fold_setBit_length: "length (fold (\<lambda>p g. setBit g p) ps f) = length f"
  by (induction ps arbitrary: f) (simp_all add: setBit_length)

lemma fold_setBit_mono: "testBit f q \<Longrightarrow> testBit (fold (\<lambda>p g. setBit g p) ps f) q"
  by (induction ps arbitrary: f) (simp_all add: testBit_setBit_mono)

lemma fold_setBit_in:
  "q \<in> set ps \<Longrightarrow> q div 8 < length f \<Longrightarrow> testBit (fold (\<lambda>p g. setBit g p) ps f) q"
proof (induction ps arbitrary: f)
  case Nil
  then show ?case by simp
next
  case (Cons a ps)
  show ?case
  proof (cases "q = a")
    case True
    then show ?thesis
      using Cons.prems by (simp add: fold_setBit_mono testBit_setBit_same)
  next
    case False
    then show ?thesis
      using Cons by (simp add: setBit_length)
  qed
qed

lemma filterInsertDigest_length: "length (filterInsertDigest pos f c d) = length f"
  by (simp add: filterInsertDigest_def fold_setBit_length)

lemma filterInsertDigest_contains:
  "\<forall>p \<in> set (pos c d). p div 8 < length f \<Longrightarrow>
   filterContainsDigest pos (filterInsertDigest pos f c d) c d"
  by (simp add: filterContainsDigest_def filterInsertDigest_def list_all_iff fold_setBit_in)

lemma filterInsertDigest_mono:
  "filterContainsDigest pos f c d' \<Longrightarrow>
   filterContainsDigest pos (filterInsertDigest pos f c d) c d'"
  by (simp add: filterContainsDigest_def filterInsertDigest_def list_all_iff fold_setBit_mono)

lemma fold_insert_length:
  "length (fold (\<lambda>d f. filterInsertDigest pos f c d) ds f) = length f"
  by (induction ds arbitrary: f) (simp_all add: filterInsertDigest_length)

lemma fold_insert_mono:
  "filterContainsDigest pos f c d' \<Longrightarrow>
   filterContainsDigest pos (fold (\<lambda>d f. filterInsertDigest pos f c d) ds f) c d'"
  by (induction ds arbitrary: f) (simp_all add: filterInsertDigest_mono)

lemma fold_insert_contains:
  "d \<in> set ds \<Longrightarrow> \<forall>p \<in> set (pos c d). p div 8 < length f \<Longrightarrow>
   filterContainsDigest pos (fold (\<lambda>d f. filterInsertDigest pos f c d) ds f) c d"
proof (induction ds arbitrary: f)
  case Nil
  then show ?case by simp
next
  case (Cons a ds)
  show ?case
  proof (cases "d = a")
    case True
    then show ?thesis
      using Cons.prems by (simp add: fold_insert_mono filterInsertDigest_contains)
  next
    case False
    then show ?thesis
      using Cons by (simp add: filterInsertDigest_length)
  qed
qed

lemma newFilterFromDigests_length: "length (newFilterFromDigests pos c ds) = filterSize c"
  by (simp add: newFilterFromDigests_def fold_insert_length)

lemma newFilterFromDigests_contains:
  "d \<in> set ds \<Longrightarrow> \<forall>p \<in> set (pos c d). p < 8 * filterSize c \<Longrightarrow>
   filterContainsDigest pos (newFilterFromDigests pos c ds) c d"
  by (rule fold_insert_contains [of d ds pos c "replicate (filterSize c) 0",
        folded newFilterFromDigests_def]) (auto simp: less_mult_imp_div_less)

subsection \<open>The inline merge\<close>

lemma mergeBytes_nth:
  assumes "\<forall>j \<in> set js. j < length dst" and "length src = length dst" and "distinct js"
  shows "\<exists>r. mergeBytes dst src js = Inr r \<and> length r = length dst \<and>
           (\<forall>k < length dst. r ! k = (if k \<in> set js then (dst ! k) OR (src ! k) else dst ! k))"
  using assms
proof (induction js arbitrary: dst)
  case Nil
  then show ?case by simp
next
  case (Cons j js)
  let ?d = "dst[j := (dst ! j) OR (src ! j)]"
  have j: "j < length dst" "j \<notin> set js" using Cons.prems by auto
  have "\<exists>r. mergeBytes ?d src js = Inr r \<and> length r = length ?d \<and>
           (\<forall>k < length ?d. r ! k = (if k \<in> set js then (?d ! k) OR (src ! k) else ?d ! k))"
    using Cons.prems by (intro Cons.IH) auto
  then obtain r where r: "mergeBytes ?d src js = Inr r" "length r = length dst"
    "\<forall>k < length dst. r ! k = (if k \<in> set js then (?d ! k) OR (src ! k) else ?d ! k)"
    by auto
  have "\<forall>k < length dst. r ! k = (if k \<in> set (j # js) then (dst ! k) OR (src ! k) else dst ! k)"
    using r(3) j by (auto simp: nth_list_update)
  then show ?case
    using r(1,2) j Cons.prems(2) by simp
qed

lemma mergeBytes_all:
  assumes "length src = length dst"
  shows "mergeBytes dst src [0..<length dst] = Inr (map2 (OR) dst src)"
proof -
  from mergeBytes_nth [of "[0..<length dst]" dst src] assms
  obtain r where r: "mergeBytes dst src [0..<length dst] = Inr r" "length r = length dst"
    "\<forall>k < length dst. r ! k = (dst ! k) OR (src ! k)"
    by auto
  have "r = map2 (OR) dst src"
    using r(2,3) assms by (intro nth_equalityI) simp_all
  with r(1) show ?thesis by simp
qed

lemma mergeLevels_nth:
  assumes "\<forall>i \<in> set is. 1 \<le> i \<and> i < length fs \<and> i - 1 < length (filters data)"
    and "\<forall>f \<in> set fs. length f = sz"
    and "\<forall>f \<in> set (filters data). length f = sz"
    and "distinct is"
  shows "\<exists>r. mergeLevels sz fs data is = Inr r \<and> length r = length fs \<and>
           (\<forall>f \<in> set r. length f = sz) \<and>
           (\<forall>i < length fs. r ! i =
              (if i \<in> set is then map2 (OR) (fs ! i) (filters data ! (i - 1)) else fs ! i))"
  using assms
proof (induction "is" arbitrary: fs)
  case Nil
  then show ?case by simp
next
  case (Cons i "is")
  have i: "1 \<le> i" "i < length fs" "i - 1 < length (filters data)" "i \<notin> set is"
    using Cons.prems by auto
  have li: "length (fs ! i) = sz" "length (filters data ! (i - 1)) = sz"
    using i Cons.prems(2,3) by auto
  let ?b = "map2 (OR) (fs ! i) (filters data ! (i - 1))"
  let ?fs = "fs[i := ?b]"
  have mb: "sz \<noteq> 0 \<Longrightarrow> mergeBytes (fs ! i) (filters data ! (i - 1)) [0..<sz] = Inr ?b"
    using mergeBytes_all [of "filters data ! (i - 1)" "fs ! i"] li by simp
  have same0: "sz = 0 \<Longrightarrow> ?fs = fs"
    using li by (metis length_0_conv list_update_id zip_Nil map_is_Nil_conv)
  have step: "mergeLevels sz fs data (i # is) = mergeLevels sz ?fs data is"
  proof (cases "sz = 0")
    case True
    then show ?thesis using same0 by simp
  next
    case False
    then show ?thesis using i mb by simp
  qed
  have lb: "\<forall>f \<in> set ?fs. length f = sz"
    using Cons.prems(2) li by (auto dest!: set_update_subset_insert [THEN subsetD])
  have "\<exists>r. mergeLevels sz ?fs data is = Inr r \<and> length r = length ?fs \<and>
           (\<forall>f \<in> set r. length f = sz) \<and>
           (\<forall>k < length ?fs. r ! k =
              (if k \<in> set is then map2 (OR) (?fs ! k) (filters data ! (k - 1)) else ?fs ! k))"
    using Cons.prems lb by (intro Cons.IH) auto
  then obtain r where r: "mergeLevels sz ?fs data is = Inr r" "length r = length fs"
    "\<forall>f \<in> set r. length f = sz"
    "\<forall>k < length fs. r ! k =
              (if k \<in> set is then map2 (OR) (?fs ! k) (filters data ! (k - 1)) else ?fs ! k)"
    by auto
  have "\<forall>k < length fs. r ! k =
          (if k \<in> set (i # is) then map2 (OR) (fs ! k) (filters data ! (k - 1)) else fs ! k)"
    using r(4) i by (auto simp: nth_list_update)
  then show ?case
    using step r(1-3) by simp
qed

lemma mergePeers_nth:
  assumes "\<forall>d \<in> set ds. length (filters d) = length fs \<and>
             (\<forall>f \<in> set (filters d). length f = filterSize c)"
    and "length fs = unat (FiltersDepth c)"
    and "\<forall>f \<in> set fs. length f = filterSize c"
  shows "\<exists>r. mergePeers c fs ds = Inr r \<and> length r = length fs \<and>
           (\<forall>f \<in> set r. length f = filterSize c) \<and>
           (\<forall>i < length fs. r ! i =
              (if 1 \<le> i then fold (\<lambda>d acc. map2 (OR) acc (filters d ! (i - 1))) ds (fs ! i)
               else fs ! i))"
  using assms
proof (induction ds arbitrary: fs)
  case Nil
  then show ?case by simp
next
  case (Cons d ds)
  have d: "length (filters d) = length fs" "\<forall>f \<in> set (filters d). length f = filterSize c"
    using Cons.prems(1) by auto
  have "\<exists>r. mergeLevels (filterSize c) fs d [1..<unat (FiltersDepth c)] = Inr r \<and>
          length r = length fs \<and> (\<forall>f \<in> set r. length f = filterSize c) \<and>
          (\<forall>i < length fs. r ! i =
              (if i \<in> set [1..<unat (FiltersDepth c)]
               then map2 (OR) (fs ! i) (filters d ! (i - 1)) else fs ! i))"
    using Cons.prems(2,3) d by (intro mergeLevels_nth) auto
  then obtain r1 where r1: "mergeLevels (filterSize c) fs d [1..<unat (FiltersDepth c)] = Inr r1"
    "length r1 = length fs" "\<forall>f \<in> set r1. length f = filterSize c"
    "\<forall>i < length fs. r1 ! i =
              (if i \<in> set [1..<unat (FiltersDepth c)]
               then map2 (OR) (fs ! i) (filters d ! (i - 1)) else fs ! i)"
    by auto
  have "\<exists>r. mergePeers c r1 ds = Inr r \<and> length r = length r1 \<and>
           (\<forall>f \<in> set r. length f = filterSize c) \<and>
           (\<forall>i < length r1. r ! i =
              (if 1 \<le> i then fold (\<lambda>d acc. map2 (OR) acc (filters d ! (i - 1))) ds (r1 ! i)
               else r1 ! i))"
    using Cons.prems r1(2,3) by (intro Cons.IH) auto
  then obtain r where r: "mergePeers c r1 ds = Inr r" "length r = length fs"
    "\<forall>f \<in> set r. length f = filterSize c"
    "\<forall>i < length fs. r ! i =
              (if 1 \<le> i then fold (\<lambda>d acc. map2 (OR) acc (filters d ! (i - 1))) ds (r1 ! i)
               else r1 ! i)"
    using r1(2) by auto
  have "\<forall>i < length fs. r ! i =
          (if 1 \<le> i then fold (\<lambda>d acc. map2 (OR) acc (filters d ! (i - 1))) (d # ds) (fs ! i)
           else fs ! i)"
    using r(4) r1(4) Cons.prems(2) by auto
  then show ?case
    using r1(1) r(1-3) by simp
qed

lemma sendLevels_ok:
  "\<forall>i \<in> set is. i < length fs \<Longrightarrow>
   sendLevels n fs t is =
     Inr (concat (map (\<lambda>i. SendUpdate t (word_of_nat i) (fs ! i) #
                          updateSent (log n) n (word_of_nat i) (fs ! i) t) is))"
  by (induction "is") simp_all

lemma sendPeers_ok:
  "\<forall>i \<in> set [0..<unat (FiltersDepth (cfg n) - 1)]. i < length fs \<Longrightarrow>
   sendPeers n fs ts =
     Inr (concat (map (\<lambda>t. concat (map (\<lambda>i. SendUpdate t (word_of_nat i) (fs ! i) #
                          updateSent (log n) n (word_of_nat i) (fs ! i) t)
                       [0..<unat (FiltersDepth (cfg n) - 1)])) ts))"
  by (induction ts) (simp_all add: sendLevels_ok)

lemma newFilters_length: "length (newFilters c) = unat (FiltersDepth c)"
  by (simp add: newFilters_def)

lemma newFilters_nth: "i < unat (FiltersDepth c) \<Longrightarrow> newFilters c ! i = replicate (filterSize c) 0"
  by (simp add: newFilters_def)

lemma fold_or_peers:
  "fold (\<lambda>d acc. map2 (OR) acc (filters d ! k)) (map snd tab) a =
   fold (\<lambda>f acc. map2 (OR) acc f) (map (\<lambda>(p, d). filters d ! k) tab) a"
  by (induction tab arbitrary: a) auto

lemma localFilters_ok:
  assumes "FiltersDepth (cfg n) \<noteq> 0" and "wfPeers (cfg n) (peers n)"
  shows "\<exists>fs. localFilters h pos n = Inr fs \<and> length fs = unat (FiltersDepth (cfg n)) \<and>
           fs ! 0 = newFilterFromDigests pos (cfg n) (subscriptions n @ [h (id_net (net n))]) \<and>
           (\<forall>i. 1 \<le> i \<and> i < unat (FiltersDepth (cfg n)) \<longrightarrow>
              fs ! i = orAll (filterSize (cfg n))
                         (map (\<lambda>(p, d). filters d ! (i - 1)) (peers n)))"
proof -
  let ?c = "cfg n"
  let ?D = "unat (FiltersDepth ?c)"
  let ?nf = "newFilterFromDigests pos ?c (subscriptions n @ [h (id_net (net n))])"
  let ?fs0 = "(newFilters ?c)[0 := ?nf]"
  have D: "0 < ?D" using assms(1) by (simp add: unat_gt_0)
  have l0: "length ?fs0 = ?D" by (simp add: newFilters_length)
  have e0: "\<forall>f \<in> set ?fs0. length f = filterSize ?c"
    by (auto simp: newFilters_def newFilterFromDigests_length
        dest!: set_update_subset_insert [THEN subsetD])
  have wf: "\<forall>d \<in> set (map snd (peers n)). length (filters d) = length ?fs0 \<and>
             (\<forall>f \<in> set (filters d). length f = filterSize ?c)"
    using assms(2) by (fastforce simp: wfPeers_def newFilters_length)
  from mergePeers_nth [OF wf l0 e0]
  obtain r where r: "mergePeers ?c ?fs0 (map snd (peers n)) = Inr r" "length r = ?D"
    "\<forall>i < ?D. r ! i =
       (if 1 \<le> i
        then fold (\<lambda>d acc. map2 (OR) acc (filters d ! (i - 1))) (map snd (peers n)) (?fs0 ! i)
        else ?fs0 ! i)"
    using l0 by auto
  have ne: "0 < length (newFilters ?c)"
    using D by (simp add: newFilters_length)
  have lf: "localFilters h pos n = Inr r"
    using ne r(1) by (simp add: localFilters_def Let_def)
  have z: "r ! 0 = ?nf"
    using r(3) D by (simp add: newFilters_length)
  have "\<forall>i. 1 \<le> i \<and> i < ?D \<longrightarrow>
          r ! i = orAll (filterSize ?c) (map (\<lambda>(p, d). filters d ! (i - 1)) (peers n))"
  proof (intro allI impI)
    fix i assume i: "1 \<le> i \<and> i < ?D"
    then have a: "?fs0 ! i = replicate (filterSize ?c) 0"
      by (simp add: newFilters_nth)
    have "r ! i = fold (\<lambda>d acc. map2 (OR) acc (filters d ! (i - 1))) (map snd (peers n))
                    (?fs0 ! i)"
      using r(3) i by simp
    then show "r ! i = orAll (filterSize ?c) (map (\<lambda>(p, d). filters d ! (i - 1)) (peers n))"
      by (simp only: a fold_or_peers orAll_def)
  qed
  with lf r(2) z show ?thesis by blast
qed

subsection \<open>The peer table keeps its shape\<close>

lemma set_update_cases:
  "x \<in> set (AList.update k v al) \<Longrightarrow> x = (k, v) \<or> x \<in> set al"
  by (induction al) (auto split: if_splits)

lemma wfPeers_newNode: "wfPeers c (peers (newNode ov l c d))"
  by (simp add: wfPeers_def newNode_def)

lemma wfPeers_dispatchUpdate:
  assumes "wfPeers (cfg n) (peers n)"
    and "\<forall>v. u = Some v \<longrightarrow> length (filter_u v) < 2 ^ 63"
    and "dispatchUpdate now n u = Inr (n', as)"
  shows "cfg n' = cfg n \<and> wfPeers (cfg n') (peers n')"
proof (cases "validUpdate u (cfg n)")
  case False
  then show ?thesis using assms by (simp add: dispatchUpdate_def)
next
  case True
  then obtain v where v: "u = Some v" "length (filter_u v) = filterSize (cfg n)"
    using assms(2) by (cases u) (auto simp: validUpdate_def filterSize_def len_word64)
  have run: "processUpdate now n v = Inr (n', as)"
    using assms(3) True v by (simp add: dispatchUpdate_def)
  show ?thesis
  proof (cases "isConnected (net n) (peer v)")
    case False
    then show ?thesis using run assms(1) by (simp add: processUpdate_def)
  next
    case True
    from processUpdate_accepted [OF True run] obtain p d where
      d: "unat (index v) < length (filters d)"
      "d = (case map_of (peers n) p of Some d \<Rightarrow> d
            | None \<Rightarrow> \<lparr>filters = newFilters (cfg n),
                  timestamps = replicate (unat (FiltersDepth (cfg n))) 0\<rparr>)"
      and n': "n' = n\<lparr>peers := AList.update p
                   (d\<lparr>filters := (filters d)[unat (index v) := filter_u v],
                      timestamps := (timestamps d)[unat (index v) := now]\<rparr>) (peers n)\<rparr>"
      by blast
    have wd: "length (filters d) = unat (FiltersDepth (cfg n)) \<and>
              length (timestamps d) = unat (FiltersDepth (cfg n)) \<and>
              (\<forall>f \<in> set (filters d). length f = filterSize (cfg n))"
    proof (cases "map_of (peers n) p")
      case None
      then show ?thesis using d(2) by (simp add: newFilters_def)
    next
      case (Some d')
      then have "(p, d') \<in> set (peers n)" by (rule map_of_SomeD)
      then show ?thesis using assms(1) d(2) Some by (auto simp: wfPeers_def)
    qed
    have "\<forall>f \<in> set ((filters d)[unat (index v) := filter_u v]). length f = filterSize (cfg n)"
      using wd v(2) by (auto dest!: set_update_subset_insert [THEN subsetD])
    then show ?thesis
      using assms(1) wd by (auto simp: n' wfPeers_def dest!: set_update_cases)
  qed
qed

subsection \<open>One propagation tick\<close>

text \<open>With a depth of 0 the assignment to \<open>filters[0]\<close> panics.\<close>

lemma sendUpdates_depth_0:
  "FiltersDepth (cfg n) = 0 \<Longrightarrow> sendUpdates h pos n = Inl IndexOutOfRange"
  by (simp add: sendUpdates_def localFilters_def newFilters_def Let_def)

text \<open>
  C5. On a node with a depth other than 0 whose peer table has the shape above, and with
  bit positions that fall inside the filter, \<open>sendUpdates\<close> does not panic and sends to
  every connected peer, in turn, one update per index \<open>0 .. D - 2\<close> carrying the local
  filter of that level (and calls \<open>updateSent\<close> for each); level \<open>D - 1\<close> is computed
  but not sent. The level-0 filter contains the digest of every subscribed topic and the
  digest of the node's own id, and every level \<open>i\<close> from 1 to \<open>D - 1\<close> is the bitwise
  OR, over all peer entries, of their level \<open>i - 1\<close> filters.
\<close>

theorem sendUpdates_propagation:
  assumes "FiltersDepth (cfg n) \<noteq> 0"
    and "wfPeers (cfg n) (peers n)"
    and "\<forall>d \<in> set (subscriptions n @ [h (id_net (net n))]).
           \<forall>p \<in> set (pos (cfg n) d). p < 8 * filterSize (cfg n)"
  shows "\<exists>fs. localFilters h pos n = Inr fs \<and> length fs = unat (FiltersDepth (cfg n))
       \<and> sendUpdates h pos n =
           Inr (concat (map (\<lambda>t. concat (map (\<lambda>i.
                  SendUpdate t (word_of_nat i) (fs ! i) #
                  updateSent (log n) n (word_of_nat i) (fs ! i) t)
                [0..<unat (FiltersDepth (cfg n)) - 1])) (connectedPeers (net n))))
       \<and> (\<forall>i < unat (FiltersDepth (cfg n)) - 1. unat (word_of_nat i :: 32 word) = i)
       \<and> fs ! 0 = newFilterFromDigests pos (cfg n) (subscriptions n @ [h (id_net (net n))])
       \<and> (\<forall>d \<in> keys (subscribers n). filterContainsDigest pos (fs ! 0) (cfg n) d)
       \<and> filterContainsDigest pos (fs ! 0) (cfg n) (h (id_net (net n)))
       \<and> (\<forall>i. 1 \<le> i \<and> i < unat (FiltersDepth (cfg n)) \<longrightarrow>
             fs ! i = orAll (filterSize (cfg n))
                        (map (\<lambda>(p, d). filters d ! (i - 1)) (peers n)))"
proof -
  let ?c = "cfg n"
  let ?D = "unat (FiltersDepth ?c)"
  let ?ds = "subscriptions n @ [h (id_net (net n))]"
  from localFilters_ok [OF assms(1,2), of h pos]
  obtain fs where fs: "localFilters h pos n = Inr fs" "length fs = ?D"
    "fs ! 0 = newFilterFromDigests pos ?c ?ds"
    "\<forall>i. 1 \<le> i \<and> i < ?D \<longrightarrow>
       fs ! i = orAll (filterSize ?c) (map (\<lambda>(p, d). filters d ! (i - 1)) (peers n))"
    by blast
  have D1: "unat (FiltersDepth ?c - 1) = ?D - 1"
    using assms(1) by (simp add: unat_minus_one)
  have rng: "\<forall>i \<in> set [0..<unat (FiltersDepth ?c - 1)]. i < length fs"
    using fs(2) D1 by auto
  have send: "sendUpdates h pos n =
           Inr (concat (map (\<lambda>t. concat (map (\<lambda>i.
                  SendUpdate t (word_of_nat i) (fs ! i) #
                  updateSent (log n) n (word_of_nat i) (fs ! i) t)
                [0..<?D - 1])) (connectedPeers (net n))))"
    using sendPeers_ok [OF rng] by (simp add: sendUpdates_def fs(1) D1)
  have idx: "\<forall>i < ?D - 1. unat (word_of_nat i :: 32 word) = i"
  proof (intro allI impI)
    fix i assume "i < ?D - 1"
    moreover have "?D < 2 ^ 32" using unsigned_less [of "FiltersDepth ?c"] by simp
    ultimately have "i < 2 ^ LENGTH(32)" by simp
    then show "unat (word_of_nat i :: 32 word) = i"
      by (simp add: unat_of_nat take_bit_nat_eq_self)
  qed
  have subs: "\<forall>d \<in> keys (subscribers n). filterContainsDigest pos (fs ! 0) ?c d"
  proof
    fix d assume "d \<in> keys (subscribers n)"
    then have "d \<in> set ?ds" by (simp add: keys_def subscriptions_def)
    moreover from this have "\<forall>p \<in> set (pos ?c d). p < 8 * filterSize ?c"
      using assms(3) by blast
    ultimately show "filterContainsDigest pos (fs ! 0) ?c d"
      by (simp only: fs(3)) (rule newFilterFromDigests_contains)
  qed
  have self: "filterContainsDigest pos (fs ! 0) ?c (h (id_net (net n)))"
    using assms(3) by (auto simp: fs(3) intro!: newFilterFromDigests_contains)
  show ?thesis
    using fs send idx subs self by blast
qed

lemma localFilters_node_full:
  "localFilters h20 pos1 node_full = Inr [[0, 66], [3, 0], [4, 0]]"
  by code_simp

lemma sendUpdates_node_full:
  "sendUpdates h20 pos1 node_full =
     Inr [SendUpdate [2] 0 [0, 66],
          LogUpdate TapUpdatesSent \<lparr>peer = Some [9], index = 0, filter_u = [0, 66]\<rparr> (Some [2]),
          SendUpdate [2] 1 [3, 0],
          LogUpdate TapUpdatesSent \<lparr>peer = Some [9], index = 1, filter_u = [3, 0]\<rparr> (Some [2]),
          SendUpdate [3] 0 [0, 66],
          LogUpdate TapUpdatesSent \<lparr>peer = Some [9], index = 0, filter_u = [0, 66]\<rparr> (Some [3]),
          SendUpdate [3] 1 [3, 0],
          LogUpdate TapUpdatesSent \<lparr>peer = Some [9], index = 1, filter_u = [3, 0]\<rparr> (Some [3])]"
  by code_simp

theorem sendUpdates_propagation_witness:
  "FiltersDepth (cfg node_full) \<noteq> 0 \<and>
   wfPeers (cfg node_full) (peers node_full) \<and>
   subscriptions node_full = [h20 [110, 101, 119, 115]] \<and>
   pos1 (cfg node_full) (h20 [110, 101, 119, 115]) = [14] \<and>
   pos1 (cfg node_full) (h20 (id_net (net node_full))) = [9] \<and>
   filterSize (cfg node_full) = 2 \<and>
   localFilters h20 pos1 node_full = Inr [[0, 66], [3, 0], [4, 0]] \<and>
   sendUpdates h20 pos1 node_full =
     Inr [SendUpdate [2] 0 [0, 66],
          LogUpdate TapUpdatesSent \<lparr>peer = Some [9], index = 0, filter_u = [0, 66]\<rparr> (Some [2]),
          SendUpdate [2] 1 [3, 0],
          LogUpdate TapUpdatesSent \<lparr>peer = Some [9], index = 1, filter_u = [3, 0]\<rparr> (Some [2]),
          SendUpdate [3] 0 [0, 66],
          LogUpdate TapUpdatesSent \<lparr>peer = Some [9], index = 0, filter_u = [0, 66]\<rparr> (Some [3]),
          SendUpdate [3] 1 [3, 0],
          LogUpdate TapUpdatesSent \<lparr>peer = Some [9], index = 1, filter_u = [3, 0]\<rparr> (Some [3])]"
proof -
  have c: "cfg node_full = cfg3" "net node_full = net23"
    by (simp_all add: node_full_def node_sub_def Subscribe_def node0_def newNode_def Let_def)
  have s: "subscriptions node_full = [h20 [110, 101, 119, 115]]"
    by (simp add: subscriptions_def node_full_def node_sub_def Subscribe_def node0_def
        newNode_def Let_def)
  have d: "FiltersDepth (cfg node_full) \<noteq> 0"
    by (simp add: c cfg3_def)
  have w: "wfPeers (cfg node_full) (peers node_full)"
    by (simp add: wfPeers_def c depth_cfg3 filterSize_cfg3) (simp add: node_full_def)
  have p: "pos1 (cfg node_full) (h20 [110, 101, 119, 115]) = [14]"
    "pos1 (cfg node_full) (h20 (id_net (net node_full))) = [9]"
    by (simp_all add: c net23_def pos1_h20)
  have r: "\<forall>d \<in> set (subscriptions node_full @ [h20 (id_net (net node_full))]).
           \<forall>p \<in> set (pos1 (cfg node_full) d). p < 8 * filterSize (cfg node_full)"
    using p by (simp add: s) (simp add: c filterSize_cfg3)
  show ?thesis
    using sendUpdates_propagation [where n = node_full and h = h20 and pos = pos1, OF d w r]
      d w s p
    by (simp add: localFilters_node_full sendUpdates_node_full c filterSize_cfg3)
qed

end
